theory Spec2Isabelle
  imports Main "HOL-Library.List_Lexorder"
begin

section \<open>JavaScript strings\<close>

text \<open>
  A JavaScript string is a sequence of UTF-16 code units. The script matches, slices and
  compares strings code unit by code unit (no regular expression carries the \<open>u\<close> flag),
  so a string is modelled as the list of its code units, each a natural number.
  The source contains the em dash U+2014 (code unit 8212), which is why the 8-bit
  \<^typ>\<open>char\<close> is not used.
\<close>

type_synonym jschar = nat
type_synonym jsstring = "nat list"

definition ascii :: "string \<Rightarrow> jsstring" where
  \<comment> \<open>an ASCII literal of the source, as code units\<close>
  "ascii s = map of_char s"

definition isLineTerminator :: "jschar \<Rightarrow> bool" where
  \<comment> \<open>ECMAScript LineTerminator: LF, CR, LS, PS\<close>
  "isLineTerminator c = (c = 10 \<or> c = 13 \<or> c = 8232 \<or> c = 8233)"

definition isWhiteSpace :: "jschar \<Rightarrow> bool" where
  \<comment> \<open>ECMAScript WhiteSpace: TAB, VT, FF, ZWNBSP and the Unicode space separators\<close>
  "isWhiteSpace c =
     (c = 9 \<or> c = 11 \<or> c = 12 \<or> c = 32 \<or> c = 160 \<or> c = 5760 \<or>
      (8192 \<le> c \<and> c \<le> 8202) \<or> c = 8239 \<or> c = 8287 \<or> c = 12288 \<or> c = 65279)"

definition isSpace :: "jschar \<Rightarrow> bool" where
  \<comment> \<open>the class \<open>\s\<close>, and what \<open>String.prototype.trim\<close> strips\<close>
  "isSpace c = (isWhiteSpace c \<or> isLineTerminator c)"

definition isDigit :: "jschar \<Rightarrow> bool" where
  \<comment> \<open>the class \<open>\d\<close>\<close>
  "isDigit c = (48 \<le> c \<and> c \<le> 57)"

definition trim :: "jsstring \<Rightarrow> jsstring" where
  "trim s = rev (dropWhile isSpace (rev (dropWhile isSpace s)))"

fun splitOn :: "jschar \<Rightarrow> jsstring \<Rightarrow> jsstring list" where
  \<comment> \<open>\<open>s.split(sep)\<close> for a one-unit separator; the empty string gives one empty piece\<close>
  "splitOn sep [] = [[]]"
| "splitOn sep (c # cs) =
     (if c = sep then [] # splitOn sep cs
      else (case splitOn sep cs of [] \<Rightarrow> [[c]] | l # ls \<Rightarrow> (c # l) # ls))"

fun joinWith :: "jsstring \<Rightarrow> jsstring list \<Rightarrow> jsstring" where
  \<comment> \<open>\<open>xs.join(sep)\<close>\<close>
  "joinWith sep [] = []"
| "joinWith sep [x] = x"
| "joinWith sep (x # y # ys) = x @ sep @ joinWith sep (y # ys)"

definition endsWith :: "jsstring \<Rightarrow> jsstring \<Rightarrow> bool" where
  "endsWith s suffix = (length suffix \<le> length s \<and> drop (length s - length suffix) s = suffix)"

fun replaceFirst :: "jsstring \<Rightarrow> jsstring \<Rightarrow> jsstring \<Rightarrow> jsstring" where
  \<comment> \<open>\<open>s.replace(pat, rep)\<close> with a string pattern: only the first occurrence is replaced\<close>
  "replaceFirst pat rep [] = (if pat = [] then rep else [])"
| "replaceFirst pat rep (c # cs) =
     (if take (length pat) (c # cs) = pat then rep @ drop (length pat) (c # cs)
      else c # replaceFirst pat rep cs)"

definition orElse :: "jsstring \<Rightarrow> jsstring \<Rightarrow> jsstring" where
  \<comment> \<open>\<open>a || b\<close> on strings: the empty string is the only falsy string\<close>
  "orElse a b = (if a = [] then b else a)"

section \<open>Regular expressions\<close>

text \<open>
  The three regular expressions of the script use line anchors, literal characters, the
  classes \<open>\s\<close> and \<open>\d\<close>, and the greedy quantifiers \<open>+\<close>, \<open>*\<close> and \<open>{n}\<close>.
  A pattern of that shape is a list of pieces; the matcher is the backtracking matcher
  of ECMAScript on it: a greedy quantifier first takes the longest run and gives
  characters back one at a time until the rest of the pattern matches.
\<close>

datatype atom = Chr jschar | ClassS | ClassD

datatype piece = AssertBol | AssertEol | One atom | Plus atom | Star atom

definition isSyntaxChar :: "jschar \<Rightarrow> bool" where
  \<comment> \<open>ECMAScript SyntaxCharacter: \<open>^ $ \ . * + ? ( ) [ ] { } |\<close>\<close>
  "isSyntaxChar c =
     (c = 94 \<or> c = 36 \<or> c = 92 \<or> c = 46 \<or> c = 42 \<or> c = 43 \<or> c = 63 \<or>
      c = 40 \<or> c = 41 \<or> c = 91 \<or> c = 93 \<or> c = 123 \<or> c = 125 \<or> c = 124)"

definition escapeAtom :: "jschar \<Rightarrow> atom option" where
  \<comment> \<open>the atom after a backslash: \<open>\s\<close>, \<open>\d\<close> or an escaped syntax character;
      other escapes are outside the modelled pattern language\<close>
  "escapeAtom d =
     (if d = 115 then Some ClassS
      else if d = 100 then Some ClassD
      else if isSyntaxChar d then Some (Chr d)
      else None)"

fun parsePattern :: "jsstring \<Rightarrow> piece list option" where
  \<comment> \<open>\<open>new RegExp(source)\<close> on the modelled pattern language; \<open>None\<close> is a pattern
      outside it (a raw syntax character, an unknown escape, a lazy or counted
      quantifier)\<close>
  "parsePattern [] = Some []"
| "parsePattern (c # cs) =
     (if c = 94 then map_option (\<lambda>ps. AssertBol # ps) (parsePattern cs)
      else if c = 36 then map_option (\<lambda>ps. AssertEol # ps) (parsePattern cs)
      else if c = 92 then
        (case cs of
           [] \<Rightarrow> None
         | d # ds \<Rightarrow>
             (case escapeAtom d of
                None \<Rightarrow> None
              | Some a \<Rightarrow>
                  (case ds of
                     [] \<Rightarrow> Some [One a]
                   | q # qs \<Rightarrow>
                       if q = 43 \<or> q = 42 then
                         (case qs of
                            [] \<Rightarrow> Some [if q = 43 then Plus a else Star a]
                          | r # rs \<Rightarrow>
                              if r = 63 then None
                              else map_option (\<lambda>ps. (if q = 43 then Plus a else Star a) # ps)
                                     (parsePattern (r # rs)))
                       else if q = 63 \<or> q = 123 then None
                       else map_option (\<lambda>ps. One a # ps) (parsePattern (q # qs)))))
      else if isSyntaxChar c then None
      else
        (case cs of
           [] \<Rightarrow> Some [One (Chr c)]
         | q # qs \<Rightarrow>
             if q = 43 \<or> q = 42 then
               (case qs of
                  [] \<Rightarrow> Some [if q = 43 then Plus (Chr c) else Star (Chr c)]
                | r # rs \<Rightarrow>
                    if r = 63 then None
                    else map_option (\<lambda>ps. (if q = 43 then Plus (Chr c) else Star (Chr c)) # ps)
                           (parsePattern (r # rs)))
             else if q = 63 \<or> q = 123 then None
             else map_option (\<lambda>ps. One (Chr c) # ps) (parsePattern (q # qs))))"

definition atomMatches :: "atom \<Rightarrow> jschar \<Rightarrow> bool" where
  "atomMatches a c = (case a of Chr d \<Rightarrow> c = d | ClassS \<Rightarrow> isSpace c | ClassD \<Rightarrow> isDigit c)"

definition atBol :: "bool \<Rightarrow> jschar option \<Rightarrow> bool" where
  \<comment> \<open>\<open>^\<close>: the start of the input, or with flag \<open>m\<close> just after a line terminator\<close>
  "atBol multiline prev =
     (case prev of None \<Rightarrow> True | Some p \<Rightarrow> multiline \<and> isLineTerminator p)"

definition atEol :: "bool \<Rightarrow> jsstring \<Rightarrow> bool" where
  \<comment> \<open>\<open>$\<close>: the end of the input, or with flag \<open>m\<close> just before a line terminator\<close>
  "atEol multiline s =
     (case s of [] \<Rightarrow> True | c # _ \<Rightarrow> multiline \<and> isLineTerminator c)"

definition prevAfter :: "jschar option \<Rightarrow> jsstring \<Rightarrow> nat \<Rightarrow> jschar option" where
  \<comment> \<open>the character before the position reached after \<open>k\<close> characters of \<open>s\<close>\<close>
  "prevAfter prev s k = (if k = 0 then prev else Some (s ! (k - 1)))"

fun tryCounts :: "(nat \<Rightarrow> nat option) \<Rightarrow> nat \<Rightarrow> nat \<Rightarrow> nat option" where
  \<comment> \<open>greedy backtracking: the first of \<open>n, n - 1, ..., lo\<close> for which \<open>f\<close> succeeds\<close>
  "tryCounts f lo 0 = (if lo = 0 then f 0 else None)"
| "tryCounts f lo (Suc n) =
     (if Suc n < lo then None
      else (case f (Suc n) of Some r \<Rightarrow> Some r | None \<Rightarrow> tryCounts f lo n))"

primrec matchPieces :: "bool \<Rightarrow> piece list \<Rightarrow> jschar option \<Rightarrow> jsstring \<Rightarrow> nat option" where
  \<comment> \<open>matches the pieces at one position (\<open>prev\<close> is the character before it, \<open>s\<close> the
      input from it on); the result is the length of the match\<close>
  "matchPieces multiline [] = (\<lambda>prev s. Some 0)"
| "matchPieces multiline (p # ps) = (\<lambda>prev s.
     (case p of
        AssertBol \<Rightarrow> if atBol multiline prev then matchPieces multiline ps prev s else None
      | AssertEol \<Rightarrow> if atEol multiline s then matchPieces multiline ps prev s else None
      | One a \<Rightarrow>
          (case s of
             [] \<Rightarrow> None
           | c # cs \<Rightarrow>
               if atomMatches a c then map_option Suc (matchPieces multiline ps (Some c) cs)
               else None)
      | Plus a \<Rightarrow>
          tryCounts
            (\<lambda>k. map_option (\<lambda>r. k + r) (matchPieces multiline ps (prevAfter prev s k) (drop k s)))
            1 (length (takeWhile (atomMatches a) s))
      | Star a \<Rightarrow>
          tryCounts
            (\<lambda>k. map_option (\<lambda>r. k + r) (matchPieces multiline ps (prevAfter prev s k) (drop k s)))
            0 (length (takeWhile (atomMatches a) s))))"

fun execFrom :: "bool \<Rightarrow> piece list \<Rightarrow> jschar option \<Rightarrow> jsstring \<Rightarrow> nat \<Rightarrow> (nat \<times> nat) option" where
  \<comment> \<open>the leftmost position at or after the current one where the pieces match\<close>
  "execFrom multiline ps prev [] idx =
     (case matchPieces multiline ps prev [] of Some len \<Rightarrow> Some (idx, len) | None \<Rightarrow> None)"
| "execFrom multiline ps prev (c # cs) idx =
     (case matchPieces multiline ps prev (c # cs) of
        Some len \<Rightarrow> Some (idx, len)
      | None \<Rightarrow> execFrom multiline ps (Some c) cs (Suc idx))"

definition regExpExec :: "bool \<Rightarrow> piece list \<Rightarrow> jsstring \<Rightarrow> (nat \<times> nat) option" where
  \<comment> \<open>\<open>s.match(re)\<close> without flag \<open>g\<close>: \<open>(m.index, m[0].length)\<close>, or \<open>None\<close> for null\<close>
  "regExpExec multiline ps s = execFrom multiline ps None s 0"

definition regExpSearch :: "bool \<Rightarrow> piece list \<Rightarrow> jsstring \<Rightarrow> nat option" where
  \<comment> \<open>\<open>s.search(re)\<close>: the index of the first match, \<open>None\<close> for -1\<close>
  "regExpSearch multiline ps s = map_option fst (regExpExec multiline ps s)"

definition regExpTest :: "bool \<Rightarrow> piece list \<Rightarrow> jsstring \<Rightarrow> bool" where
  \<comment> \<open>\<open>re.test(s)\<close>\<close>
  "regExpTest multiline ps s = (regExpExec multiline ps s \<noteq> None)"

section \<open>extractSection\<close>

definition escapeRegExp :: "jsstring \<Rightarrow> jsstring" where
  \<comment> \<open>\<open>heading.replace(/[.*+?^${}()|[\]\\]/g, "\\$&")\<close>: a backslash before each of
      the fourteen characters of the class, which are the syntax characters\<close>
  "escapeRegExp heading = concat (map (\<lambda>c. if isSyntaxChar c then [92, c] else [c]) heading)"

definition headingSource :: "jsstring \<Rightarrow> jsstring" where
  \<comment> \<open>the template literal: \<open>^##\s+\<close>, the escaped heading, \<open>\s*$\<close>\<close>
  "headingSource heading =
     ascii ''^##'' @ [92] @ ascii ''s+'' @ escapeRegExp heading @ [92] @ ascii ''s*$''"

definition nextHeadingRe :: "piece list" where
  \<comment> \<open>\<open>/^##\s+/m\<close>\<close>
  "nextHeadingRe = [AssertBol, One (Chr 35), One (Chr 35), Plus ClassS]"

definition extractSection :: "jsstring \<Rightarrow> jsstring \<Rightarrow> jsstring option" where
  \<comment> \<open>\<open>None\<close>: \<open>new RegExp\<close> does not accept the pattern (shown below not to happen)\<close>
  "extractSection md heading =
     (case parsePattern (headingSource heading) of
        None \<Rightarrow> None
      | Some re \<Rightarrow>
          Some (case regExpExec True re md of
                  None \<Rightarrow> []
                | Some (index, len) \<Rightarrow>
                    (let start = index + len;
                         rest = drop start md
                     in trim (case regExpSearch True nextHeadingRe rest of
                                None \<Rightarrow> rest
                              | Some next \<Rightarrow> take next rest))))"

section \<open>todayISO\<close>

text \<open>
  \<open>Date.prototype.toISOString\<close> is modelled from ECMAScript's definitions (Day,
  DayFromYear, YearFromTime, MonthFromTime, DateFromTime, ...) on the time value, an
  integer number of milliseconds since the epoch. ECMAScript defines YearFromTime as the
  largest year whose first day is not after the day; here it is found by stepping from an
  estimate.
\<close>

definition msPerDay :: int where
  "msPerDay = 86400000"

definition dayFromYear :: "int \<Rightarrow> int" where
  "dayFromYear y =
     365 * (y - 1970) + (y - 1969) div 4 - (y - 1901) div 100 + (y - 1601) div 400"

definition inLeapYear :: "int \<Rightarrow> bool" where
  "inLeapYear y = (y mod 4 = 0 \<and> (y mod 100 \<noteq> 0 \<or> y mod 400 = 0))"

definition daysInYear :: "int \<Rightarrow> int" where
  "daysInYear y = (if inLeapYear y then 366 else 365)"

text \<open>The first day of a year comes 365 or 366 days after the first day of the year before.\<close>

lemma div_succ:
  fixes a k :: int
  assumes "0 < k"
  shows "(a + 1) div k = a div k + (if (a + 1) mod k = 0 then 1 else 0)"
proof -
  define q r where "q = a div k" and "r = a mod k"
  have a: "a = k * q + r" and r: "0 \<le> r" "r < k"
    using assms by (simp_all add: q_def r_def)
  show ?thesis
  proof (cases "r + 1 = k")
    case True
    then have e: "a + 1 = k * (q + 1) + 0" using a by (simp add: algebra_simps)
    have "(a + 1) div k = q + 1" using e assms by (intro int_div_pos_eq [of _ _ _ 0]) auto
    moreover have "(a + 1) mod k = 0" using e assms by (intro int_mod_pos_eq [of _ _ "q + 1"]) auto
    ultimately show ?thesis by (simp add: q_def)
  next
    case False
    then have r1: "0 \<le> r + 1" "r + 1 < k" using r by auto
    have e: "a + 1 = k * q + (r + 1)" using a by simp
    have "(a + 1) div k = q" using e r1 by (intro int_div_pos_eq [of _ _ _ "r + 1"]) auto
    moreover have "(a + 1) mod k = r + 1" using e r1 by (intro int_mod_pos_eq [of _ _ q]) auto
    ultimately show ?thesis using r by (simp add: q_def)
  qed
qed

lemma mod_shift4: "((y - 1968) mod 4 = 0) = (y mod 4 = 0)" for y :: int
  by presburger

lemma mod_shift: "((y - k * n) mod k = 0) = (y mod k = 0)" for y :: int
proof -
  have "(y - k * n) mod k = (y + k * (- n)) mod k" by simp
  also have "\<dots> = y mod k" by (rule mod_mult_self2)
  finally show ?thesis by simp
qed

lemma mod_shift100: "((y - 1900) mod 100 = 0) = (y mod 100 = 0)" for y :: int
  using mod_shift [of y 100 19] by simp

lemma mod_shift400: "((y - 1600) mod 400 = 0) = (y mod 400 = 0)" for y :: int
  using mod_shift [of y 400 4] by simp

lemma mod_400_100: "y mod 400 = 0 \<Longrightarrow> y mod 100 = 0" for y :: int
proof -
  assume "y mod 400 = 0"
  then have "400 dvd y" by (simp add: dvd_eq_mod_eq_0)
  moreover have "(100::int) dvd 400" by simp
  ultimately have "100 dvd y" by (rule dvd_trans [rotated])
  then show ?thesis by (simp add: dvd_eq_mod_eq_0)
qed

lemma mod_100_4: "y mod 100 = 0 \<Longrightarrow> y mod 4 = 0" for y :: int
proof -
  assume "y mod 100 = 0"
  then have "100 dvd y" by (simp add: dvd_eq_mod_eq_0)
  moreover have "(4::int) dvd 100" by simp
  ultimately have "4 dvd y" by (rule dvd_trans [rotated])
  then show ?thesis by (simp add: dvd_eq_mod_eq_0)
qed

lemma dayFromYear_succ: "dayFromYear (y + 1) = dayFromYear y + daysInYear y"
proof -
  define A B C where "A = (y - 1969) div 4" and "B = (y - 1901) div 100"
    and "C = (y - 1601) div 400"
  define p4 p100 p400 where "p4 = (y mod 4 = 0)" and "p100 = (y mod 100 = 0)"
    and "p400 = (y mod 400 = 0)"
  have a: "(y + 1 - 1969) div 4 = A + (if p4 then 1 else 0)"
    using div_succ [of 4 "y - 1969"] mod_shift4 [of y] by (simp add: algebra_simps A_def p4_def)
  have b: "(y + 1 - 1901) div 100 = B + (if p100 then 1 else 0)"
    using div_succ [of 100 "y - 1901"] mod_shift100 [of y]
    by (simp add: algebra_simps B_def p100_def)
  have c: "(y + 1 - 1601) div 400 = C + (if p400 then 1 else 0)"
    using div_succ [of 400 "y - 1601"] mod_shift400 [of y]
    by (simp add: algebra_simps C_def p400_def)
  have m: "p400 \<Longrightarrow> p100" "p100 \<Longrightarrow> p4"
    using mod_400_100 [of y] mod_100_4 [of y] by (simp_all add: p4_def p100_def p400_def)
  have l: "dayFromYear (y + 1) =
      365 * (y + 1 - 1970) + (A + (if p4 then 1 else 0)) - (B + (if p100 then 1 else 0)) +
      (C + (if p400 then 1 else 0))"
    unfolding dayFromYear_def a b c ..
  have r: "dayFromYear y = 365 * (y - 1970) + A - B + C"
    unfolding dayFromYear_def A_def B_def C_def ..
  have d: "daysInYear y = (if p4 \<and> (\<not> p100 \<or> p400) then 366 else 365)"
    unfolding daysInYear_def inLeapYear_def p4_def p100_def p400_def ..
  show ?thesis
    unfolding l r d using m by (cases p4; cases p100; cases p400) simp_all
qed

lemma daysInYear_pos: "365 \<le> daysInYear y" "daysInYear y \<le> 366"
  by (simp_all add: daysInYear_def)

function yearDown :: "int \<Rightarrow> int \<Rightarrow> int" where
  "yearDown y d = (if d < dayFromYear y then yearDown (y - 1) d else y)"
  by pat_completeness auto
termination
proof (relation "measure (\<lambda>(y, d). nat (dayFromYear y - d))")
  show "wf (measure (\<lambda>(y, d). nat (dayFromYear y - d)))" by simp
next
  fix y d :: int
  assume "d < dayFromYear y"
  then show "((y - 1, d), (y, d)) \<in> measure (\<lambda>(y, d). nat (dayFromYear y - d))"
    using dayFromYear_succ [of "y - 1"] daysInYear_pos(1) [of "y - 1"] by simp
qed

function yearUp :: "int \<Rightarrow> int \<Rightarrow> int" where
  "yearUp y d = (if dayFromYear (y + 1) \<le> d then yearUp (y + 1) d else y)"
  by pat_completeness auto
termination
proof (relation "measure (\<lambda>(y, d). nat (d + 1 - dayFromYear (y + 1)))")
  show "wf (measure (\<lambda>(y, d). nat (d + 1 - dayFromYear (y + 1))))" by simp
next
  fix y d :: int
  assume "dayFromYear (y + 1) \<le> d"
  then show "((y + 1, d), (y, d)) \<in> measure (\<lambda>(y, d). nat (d + 1 - dayFromYear (y + 1)))"
    using dayFromYear_succ [of "y + 1"] daysInYear_pos(1) [of "y + 1"] by simp
qed

declare yearDown.simps [simp del] yearUp.simps [simp del]

definition yearFromDay :: "int \<Rightarrow> int" where
  "yearFromDay d = yearUp (yearDown (1970 + (d * 400) div 146097) d) d"

definition leapDays :: "int \<Rightarrow> int" where
  "leapDays y = (if inLeapYear y then 1 else 0)"

definition monthFromDay :: "int \<Rightarrow> int" where
  \<comment> \<open>MonthFromTime: 0 is January\<close>
  "monthFromDay d =
     (let y = yearFromDay d; w = d - dayFromYear y; l = leapDays y
      in if w < 31 then 0
         else if w < 59 + l then 1
         else if w < 90 + l then 2
         else if w < 120 + l then 3
         else if w < 151 + l then 4
         else if w < 181 + l then 5
         else if w < 212 + l then 6
         else if w < 243 + l then 7
         else if w < 273 + l then 8
         else if w < 304 + l then 9
         else if w < 334 + l then 10
         else 11)"

definition dateFromDay :: "int \<Rightarrow> int" where
  \<comment> \<open>DateFromTime: the day of the month, from 1\<close>
  "dateFromDay d =
     (let y = yearFromDay d; w = d - dayFromYear y; l = leapDays y; m = monthFromDay d
      in if m = 0 then w + 1
         else if m = 1 then w - 30
         else if m = 2 then w - 58 - l
         else if m = 3 then w - 89 - l
         else if m = 4 then w - 119 - l
         else if m = 5 then w - 150 - l
         else if m = 6 then w - 180 - l
         else if m = 7 then w - 211 - l
         else if m = 8 then w - 242 - l
         else if m = 9 then w - 272 - l
         else if m = 10 then w - 303 - l
         else w - 333 - l)"

definition digit :: "int \<Rightarrow> jschar" where
  "digit n = 48 + nat (n mod 10)"

definition pad2 :: "int \<Rightarrow> jsstring" where
  "pad2 n = [digit (n div 10), digit n]"

definition pad3 :: "int \<Rightarrow> jsstring" where
  "pad3 n = [digit (n div 100), digit (n div 10), digit n]"

definition pad4 :: "int \<Rightarrow> jsstring" where
  "pad4 n = [digit (n div 1000), digit (n div 100), digit (n div 10), digit n]"

definition pad6 :: "int \<Rightarrow> jsstring" where
  "pad6 n = [digit (n div 100000), digit (n div 10000), digit (n div 1000),
             digit (n div 100), digit (n div 10), digit n]"

definition isoYear :: "int \<Rightarrow> jsstring" where
  \<comment> \<open>four digits for the years 0 to 9999, else a sign and six digits\<close>
  "isoYear y =
     (if 0 \<le> y \<and> y \<le> 9999 then pad4 y
      else if y < 0 then [45] @ pad6 (- y)
      else [43] @ pad6 y)"

definition toISOString :: "int \<Rightarrow> jsstring option" where
  \<comment> \<open>\<open>new Date(t).toISOString()\<close>; \<open>None\<close> is the RangeError of a time value
      outside the range of Date (TimeClip gives NaN)\<close>
  "toISOString t =
     (if 8640000000000000 < \<bar>t\<bar> then None
      else
        (let d = t div msPerDay; r = t mod msPerDay
         in Some (isoYear (yearFromDay d) @ [45] @ pad2 (monthFromDay d + 1) @ [45] @
                  pad2 (dateFromDay d) @ [84] @ pad2 (r div 3600000) @ [58] @
                  pad2 (r div 60000 mod 60) @ [58] @ pad2 (r div 1000 mod 60) @ [46] @
                  pad3 (r mod 1000) @ [90])))"

definition todayISO :: "int \<Rightarrow> jsstring option" where
  \<comment> \<open>the argument is \<open>new Date().getTime()\<close>\<close>
  "todayISO now = map_option (take 10) (toISOString (now + 6 * 60 * 60 * 1000))"

text \<open>
  The proleptic Gregorian calendar, stated the other way round: the day number of a
  calendar date (month and day from 1).
\<close>

definition daysBeforeMonth :: "int \<Rightarrow> int \<Rightarrow> int" where
  "daysBeforeMonth y m =
     (if m = 1 then 0
      else if m = 2 then 31
      else leapDays y +
        (if m = 3 then 59 else if m = 4 then 90 else if m = 5 then 120
         else if m = 6 then 151 else if m = 7 then 181 else if m = 8 then 212
         else if m = 9 then 243 else if m = 10 then 273 else if m = 11 then 304
         else 334))"

definition daysInMonth :: "int \<Rightarrow> int \<Rightarrow> int" where
  "daysInMonth y m =
     (if m = 2 then 28 + leapDays y
      else if m = 4 \<or> m = 6 \<or> m = 9 \<or> m = 11 then 30
      else 31)"

definition validCivil :: "int \<Rightarrow> int \<Rightarrow> int \<Rightarrow> bool" where
  "validCivil y m d = (1 \<le> m \<and> m \<le> 12 \<and> 1 \<le> d \<and> d \<le> daysInMonth y m)"

definition daysFromCivil :: "int \<Rightarrow> int \<Rightarrow> int \<Rightarrow> int" where
  "daysFromCivil y m d = dayFromYear y + daysBeforeMonth y m + d - 1"

definition formatDate :: "int \<Rightarrow> int \<Rightarrow> int \<Rightarrow> jsstring" where
  \<comment> \<open>YYYY-MM-DD\<close>
  "formatDate y m d = pad4 y @ [45] @ pad2 m @ [45] @ pad2 d"

section \<open>Files and directories\<close>

text \<open>
  The file system the script reads: the content of each readable file, and the state of
  each directory path. \<open>Unlistable\<close> is a path that exists and that \<open>readdirSync\<close>
  cannot list (not a directory, or no permission).
\<close>

datatype dirState = Absent | Listing "jsstring list" | Unlistable

datatype jsError =
    InvalidTime          \<comment> \<open>the RangeError of \<open>toISOString\<close>\<close>
  | PatternSyntax        \<comment> \<open>the SyntaxError of \<open>new RegExp\<close>\<close>
  | MissingPriorities    \<comment> \<open>\<open>Error("Missing ops/priorities.md ...")\<close>\<close>
  | FsFailure            \<comment> \<open>thrown by \<open>mkdirSync\<close>, \<open>readdirSync\<close> or \<open>writeFileSync\<close>\<close>
  | FetchFailure         \<comment> \<open>\<open>fetch\<close> or \<open>res.json()\<close> rejects, or the body has no fields\<close>
  | TelegramSendFailed   \<comment> \<open>\<open>Error("Telegram send failed: ...")\<close>\<close>

definition readFileSafe :: "(jsstring \<Rightarrow> jsstring option) \<Rightarrow> jsstring \<Rightarrow> jsstring" where
  \<comment> \<open>the \<open>catch\<close> turns every failure of \<open>readFileSync\<close> into the empty string\<close>
  "readFileSafe fs p = (case fs p of Some content \<Rightarrow> content | None \<Rightarrow> [])"

definition existsSync :: "(jsstring \<Rightarrow> dirState) \<Rightarrow> jsstring \<Rightarrow> bool" where
  "existsSync ds p = (ds p \<noteq> Absent)"

definition pathJoin :: "jsstring \<Rightarrow> jsstring \<Rightarrow> jsstring" where
  \<comment> \<open>\<open>path.join(a, b)\<close> on POSIX for two non-empty normalized relative paths, which is
      what every call of the script passes\<close>
  "pathJoin a b = a @ [47] @ b"

definition basename :: "jsstring \<Rightarrow> jsstring \<Rightarrow> jsstring" where
  \<comment> \<open>\<open>path.basename(p, ext)\<close> for a path that does not end with a separator\<close>
  "basename p ext =
     (let b = last (splitOn 47 p)
      in if endsWith b ext \<and> b \<noteq> ext then take (length b - length ext) b else b)"

section \<open>findLatestBrief\<close>

definition dateRe :: "piece list" where
  \<comment> \<open>\<open>/^\d{4}-\d{2}-\d{2}$/\<close>, each counted \<open>\d{n}\<close> written as \<open>n\<close> times \<open>\d\<close>\<close>
  "dateRe =
     [AssertBol] @ replicate 4 (One ClassD) @ [One (Chr 45)] @ replicate 2 (One ClassD) @
     [One (Chr 45)] @ replicate 2 (One ClassD) @ [AssertEol]"

definition descending :: "jsstring \<times> jsstring \<Rightarrow> jsstring \<times> jsstring \<Rightarrow> int" where
  \<comment> \<open>the comparator \<open>(a, b) => (a.d < b.d ? 1 : -1)\<close>; \<open><\<close> on strings compares
      code units lexicographically\<close>
  "descending a b = (if snd a < snd b then 1 else - 1)"

fun insertBy :: "('a \<Rightarrow> 'a \<Rightarrow> int) \<Rightarrow> 'a \<Rightarrow> 'a list \<Rightarrow> 'a list" where
  "insertBy cmp x [] = [x]"
| "insertBy cmp x (y # ys) = (if cmp x y \<le> 0 then x # y # ys else y # insertBy cmp x ys)"

definition sortBy :: "('a \<Rightarrow> 'a \<Rightarrow> int) \<Rightarrow> 'a list \<Rightarrow> 'a list" where
  \<comment> \<open>\<open>xs.sort(cmp)\<close>, as a stable insertion sort. The names of a directory are distinct,
      so the comparator above is a strict total order on what it sorts, and every sorting
      algorithm gives the same list\<close>
  "sortBy cmp xs = foldr (insertBy cmp) xs []"

definition datedBriefs :: "jsstring list \<Rightarrow> (jsstring \<times> jsstring) list" where
  \<comment> \<open>the array \<open>dated\<close>: pairs \<open>(f, d)\<close>\<close>
  "datedBriefs names =
     sortBy descending
       (filter (\<lambda>x. regExpTest False dateRe (snd x))
          (map (\<lambda>f. (f, replaceFirst (ascii ''.md'') [] f))
             (filter (\<lambda>f. endsWith f (ascii ''.md'')) names)))"

definition findLatestBrief :: "(jsstring \<Rightarrow> dirState) \<Rightarrow> jsstring \<Rightarrow> jsError + jsstring option" where
  \<comment> \<open>\<open>Inr None\<close> is the result null\<close>
  "findLatestBrief ds briefDir =
     (if \<not> existsSync ds briefDir then Inr None
      else
        (case ds briefDir of
           Listing names \<Rightarrow>
             (case datedBriefs names of
                [] \<Rightarrow> Inr None
              | x # _ \<Rightarrow> Inr (Some (pathJoin briefDir (fst x))))
         | _ \<Rightarrow> Inl FsFailure))"

section \<open>The report and the summary\<close>

definition emDash :: jsstring where
  "emDash = [8212]"

definition topPlaceholder :: jsstring where
  "topPlaceholder = ascii ''_(Not set '' @ emDash @ ascii '' update ops/priorities.md)_''"

definition blockersPlaceholder :: jsstring where
  "blockersPlaceholder = ascii ''_None listed_''"

definition decisionsPlaceholder :: jsstring where
  "decisionsPlaceholder = ascii ''_None listed_''"

definition notesPlaceholder :: jsstring where
  "notesPlaceholder = ascii ''_No notes_''"

definition managerReport ::
  "jsstring \<Rightarrow> jsstring \<Rightarrow> jsstring \<Rightarrow> jsstring \<Rightarrow> jsstring \<Rightarrow> jsstring \<Rightarrow> jsstring" where
  \<comment> \<open>the template literal \<open>managerReport\<close>, line by line\<close>
  "managerReport date todayTop yesterdayRef blockers decisions notes =
     ascii ''# Daily CEO Brief '' @ emDash @ ascii '' Netso\<newline>'' @
     ascii ''**Date/time:** '' @ date @ ascii '' '' @ emDash @ ascii '' 10:00 (Asia/Dhaka)\<newline>'' @
     ascii ''\<newline>'' @
     ascii ''## Detailed Manager Report\<newline>'' @
     ascii ''\<newline>'' @
     ascii ''### 1) Top priorities (in order)\<newline>'' @
     orElse todayTop topPlaceholder @ ascii ''  \<newline>'' @
     ascii ''\<newline>'' @
     ascii ''### 2) Progress since yesterday\<newline>'' @
     ascii ''- Reference previous brief: **'' @ yesterdayRef @ ascii ''**\<newline>'' @
     ascii ''- _Update ops/run-log.md with what shipped yesterday so this section becomes factual._\<newline>'' @
     ascii ''\<newline>'' @
     ascii ''### 3) Blockers / Risks\<newline>'' @
     orElse blockers blockersPlaceholder @ ascii ''  \<newline>'' @
     ascii ''\<newline>'' @
     ascii ''### 4) Decisions needed\<newline>'' @
     orElse decisions decisionsPlaceholder @ ascii ''  \<newline>'' @
     ascii ''\<newline>'' @
     ascii ''### 5) Docs/checklists to create or update\<newline>'' @
     ascii ''- ops/priorities.md (update daily)\<newline>'' @
     ascii ''- ops/run-log.md (log real progress)\<newline>'' @
     ascii ''- ops/briefs/'' @ date @ ascii ''.md (this report)\<newline>'' @
     ascii ''\<newline>'' @
     ascii ''## Notes\<newline>'' @
     orElse notes notesPlaceholder @ ascii ''\<newline>''"

definition firstLines :: "nat \<Rightarrow> jsstring \<Rightarrow> jsstring" where
  \<comment> \<open>\<open>t.split("\n").slice(0, n).join("\n")\<close>\<close>
  "firstLines n t = joinWith [10] (take n (splitOn 10 t))"

definition summaryTop :: "jsstring \<Rightarrow> jsstring" where
  \<comment> \<open>\<open>todayTop ? todayTop.split("\n").slice(0, 6).join("\n") : ""\<close>\<close>
  "summaryTop todayTop = (if todayTop \<noteq> [] then firstLines 6 todayTop else [])"

definition summaryBlockers :: "jsstring \<Rightarrow> jsstring" where
  "summaryBlockers blockers =
     (if blockers \<noteq> [] then firstLines 4 blockers else ascii ''_None listed_'')"

definition summaryDecisions :: "jsstring \<Rightarrow> jsstring" where
  "summaryDecisions decisions =
     (if decisions \<noteq> [] then firstLines 4 decisions else ascii ''_None listed_'')"

definition briefUrl :: "jsstring \<Rightarrow> jsstring \<Rightarrow> jsstring" where
  "briefUrl repo date =
     ascii ''https://github.com/'' @ repo @ ascii ''/blob/main/ops/briefs/'' @ date @ ascii ''.md''"

definition execSummary ::
  "jsstring \<Rightarrow> jsstring \<Rightarrow> jsstring \<Rightarrow> jsstring \<Rightarrow> jsstring \<Rightarrow> jsstring" where
  \<comment> \<open>the template literal \<open>execSummary\<close>, line by line\<close>
  "execSummary date repo todayTop blockers decisions =
     ascii ''*Netso '' @ emDash @ ascii '' CEO Brief ('' @ date @ ascii '')*\<newline>'' @
     ascii ''*Top priorities:* '' @ (if todayTop \<noteq> [] then [] else ascii ''_(Not set)_'') @
       ascii ''\<newline>'' @
     summaryTop todayTop @ ascii ''\<newline>'' @
     ascii ''\<newline>'' @
     ascii ''*Blockers:* '' @ summaryBlockers blockers @ ascii ''\<newline>'' @
     ascii ''*Decisions:* '' @ summaryDecisions decisions @ ascii ''\<newline>'' @
     ascii ''*Full report:* '' @ briefUrl repo date"

section \<open>The run\<close>

datatype httpReply =
    Rejected         \<comment> \<open>\<open>fetch\<close> or \<open>res.json()\<close> rejects, or the body is null\<close>
  | Answered bool    \<comment> \<open>a JSON body; the flag is the truthiness of its field \<open>ok\<close>\<close>

record world =
  clock :: int                                 \<comment> \<open>\<open>new Date().getTime()\<close>\<close>
  envToken :: "jsstring option"                \<comment> \<open>\<open>TELEGRAM_BOT_TOKEN\<close>\<close>
  envChatId :: "jsstring option"               \<comment> \<open>\<open>TELEGRAM_CHAT_ID\<close>\<close>
  envRepo :: "jsstring option"                 \<comment> \<open>\<open>GITHUB_REPO\<close>\<close>
  files :: "jsstring \<Rightarrow> jsstring option"
  dirs :: "jsstring \<Rightarrow> dirState"
  mkdirOk :: bool                              \<comment> \<open>\<open>mkdirSync\<close> succeeds\<close>
  writeOk :: bool                              \<comment> \<open>\<open>writeFileSync\<close> succeeds\<close>
  reply :: httpReply                           \<comment> \<open>what the endpoint answers when called\<close>

datatype event =
    MkDir jsstring
  | WriteFile jsstring jsstring
  | Fetch jsstring jsstring jsstring           \<comment> \<open>url, \<open>chat_id\<close>, \<open>text\<close> of the POST\<close>
  | ConsoleLog jsstring
  | ConsoleError jsError

definition envOr :: "jsstring option \<Rightarrow> jsstring" where
  \<comment> \<open>an unset variable is undefined, which is falsy like the empty string\<close>
  "envOr v = (case v of None \<Rightarrow> [] | Some s \<Rightarrow> s)"

definition sendTelegram :: "world \<Rightarrow> jsstring \<Rightarrow> event list \<times> jsError option" where
  "sendTelegram w txt =
     (let token = envOr (envToken w); chatId = envOr (envChatId w)
      in if token = [] \<or> chatId = [] then
           ([ConsoleLog (ascii ''Telegram not configured (missing secrets). Skipping send.'')],
            None)
         else
           (let url = ascii ''https://api.telegram.org/bot'' @ token @ ascii ''/sendMessage''
            in ([Fetch url chatId txt],
                (case reply w of
                   Rejected \<Rightarrow> Some FetchFailure
                 | Answered ok \<Rightarrow> if \<not> ok then Some TelegramSendFailed else None))))"

definition prioritiesPath :: jsstring where
  "prioritiesPath = pathJoin (ascii ''ops'') (ascii ''priorities.md'')"

definition briefDir :: jsstring where
  "briefDir = pathJoin (ascii ''ops'') (ascii ''briefs'')"

definition briefPath :: "jsstring \<Rightarrow> jsstring" where
  "briefPath date = pathJoin briefDir (date @ ascii ''.md'')"

definition ensureBriefDir :: "world \<Rightarrow> (event list \<times> (jsstring \<Rightarrow> dirState)) option" where
  \<comment> \<open>\<open>if (!fs.existsSync(briefDir)) fs.mkdirSync(briefDir, { recursive: true })\<close>:
      the events and the directories afterwards; \<open>None\<close> when \<open>mkdirSync\<close> throws\<close>
  "ensureBriefDir w =
     (if \<not> existsSync (dirs w) briefDir then
        (if mkdirOk w then Some ([MkDir briefDir], (dirs w)(briefDir := Listing []))
         else None)
      else Some ([], dirs w))"

definition mainBody :: "world \<Rightarrow> event list \<times> jsError option" where
  \<comment> \<open>the async function: the events up to its end or its throw, and what it threw\<close>
  "mainBody w =
     (let repo = orElse (envOr (envRepo w)) (ascii ''OWNER/REPO'')
      in case todayISO (clock w) of
           None \<Rightarrow> ([], Some InvalidTime)
         | Some date \<Rightarrow>
             (let priorities = readFileSafe (files w) prioritiesPath
              in if priorities = [] then ([], Some MissingPriorities)
                 else
                   (case ensureBriefDir w of
                      None \<Rightarrow> ([], Some FsFailure)
                    | Some (ev1, ds) \<Rightarrow>
                        (case (extractSection priorities (ascii ''This Week Outcomes (measurable)''),
                               extractSection priorities
                                 (ascii ''Today '' @ emDash @ ascii '' Top Priorities (in order)''),
                               extractSection priorities (ascii ''Blockers / Risks''),
                               extractSection priorities (ascii ''Decisions Needed''),
                               extractSection priorities (ascii ''Notes'')) of
                           (Some thisWeek, Some todayTop, Some blockers, Some decisions, Some notes) \<Rightarrow>
                             (case findLatestBrief ds briefDir of
                                Inl e \<Rightarrow> (ev1, Some e)
                              | Inr latestBriefPath \<Rightarrow>
                                  (let yesterdayRef =
                                         (case latestBriefPath of
                                            None \<Rightarrow> ascii ''N/A''
                                          | Some p \<Rightarrow>
                                              if p \<noteq> [] then basename p (ascii ''.md'')
                                              else ascii ''N/A'');
                                       report = managerReport date todayTop yesterdayRef
                                                  blockers decisions notes
                                   in if \<not> writeOk w then (ev1, Some FsFailure)
                                      else
                                        (let ev2 = ev1 @ [WriteFile (briefPath date) report];
                                             summary = execSummary date repo todayTop
                                                         blockers decisions
                                         in case sendTelegram w summary of
                                              (ev3, Some e) \<Rightarrow> (ev2 @ ev3, Some e)
                                            | (ev3, None) \<Rightarrow>
                                                (ev2 @ ev3 @
                                                 [ConsoleLog (ascii ''Wrote brief: '' @ briefPath date),
                                                  ConsoleLog (ascii ''Telegram sent (if secrets set).'')],
                                                 None))))
                         | _ \<Rightarrow> (ev1, Some PatternSyntax)))))"

definition main :: "world \<Rightarrow> event list \<times> nat" where
  \<comment> \<open>the events of the run and the exit status: the \<open>catch\<close> prints the error and
      exits with status 1\<close>
  "main w =
     (case mainBody w of
        (evs, None) \<Rightarrow> (evs, 0)
      | (evs, Some e) \<Rightarrow> (evs @ [ConsoleError e], 1))"

definition isWrite :: "event \<Rightarrow> bool" where
  "isWrite e = (case e of WriteFile _ _ \<Rightarrow> True | _ \<Rightarrow> False)"

definition isFetch :: "event \<Rightarrow> bool" where
  "isFetch e = (case e of Fetch _ _ _ \<Rightarrow> True | _ \<Rightarrow> False)"

section \<open>Notions of the specification, and an example\<close>

text \<open>The pieces that the pattern of a heading label parses to.\<close>

definition headingPieces :: "jsstring \<Rightarrow> piece list" where
  "headingPieces heading =
     [AssertBol, One (Chr 35), One (Chr 35), Plus ClassS] @ map (\<lambda>c. One (Chr c)) heading @
     [Star ClassS, AssertEol]"

text \<open>
  What the specification says, written without regular expressions. A line runs up to the
  next line terminator. A heading line of a label consists of the marker \<open>##\<close>,
  whitespace of the line, the label, and optional whitespace of the line. A bare marker
  line is the marker followed by nothing but whitespace of the line.
\<close>

definition firstLine :: "jsstring \<Rightarrow> jsstring" where
  "firstLine s = takeWhile (\<lambda>c. \<not> isLineTerminator c) s"

definition isHeadingLine :: "jsstring \<Rightarrow> jsstring \<Rightarrow> bool" where
  "isHeadingLine L ln =
     (\<exists>w1 w2. ln = [35, 35] @ w1 @ L @ w2 \<and> w1 \<noteq> [] \<and> list_all isWhiteSpace w1 \<and>
        list_all isWhiteSpace w2)"

definition isBareMarker :: "jsstring \<Rightarrow> bool" where
  "isBareMarker ln = (\<exists>w. ln = [35, 35] @ w \<and> list_all isWhiteSpace w)"

text \<open>
  The text up to the next heading: it stops at the first place that starts a line and
  begins with the marker \<open>##\<close> and a whitespace character.
\<close>

definition startsNextHeading :: "jsstring \<Rightarrow> bool" where
  "startsNextHeading s = (case s of a # b # c # _ \<Rightarrow> a = 35 \<and> b = 35 \<and> isSpace c | _ \<Rightarrow> False)"

fun untilNextHeading :: "bool \<Rightarrow> jsstring \<Rightarrow> jsstring" where
  "untilNextHeading atStart [] = []"
| "untilNextHeading atStart (c # cs) =
     (if atStart \<and> startsNextHeading (c # cs) then []
      else c # untilNextHeading (isLineTerminator c) cs)"

text \<open>
  The shape of a match of the heading pattern (its whitespace may hold line breaks), and
  the character before a position of the input.
\<close>

definition headingForm :: "jsstring \<Rightarrow> jsstring \<Rightarrow> nat \<Rightarrow> bool" where
  "headingForm L s len =
     (\<exists>W1 W2 r. s = [35, 35] @ W1 @ L @ W2 @ r \<and> W1 \<noteq> [] \<and> (\<forall>c\<in>set W1. isSpace c) \<and>
        (\<forall>c\<in>set W2. isSpace c) \<and> atEol True r \<and>
        len = 2 + length W1 + length L + length W2)"

definition prevOf :: "jschar option \<Rightarrow> jsstring \<Rightarrow> jschar option" where
  "prevOf prev a = (if a = [] then prev else Some (last a))"

text \<open>
  What the specification says of a file name: its name without the extension, and the
  date pattern, written without regular expressions.
\<close>

definition stem :: "jsstring \<Rightarrow> jsstring" where
  "stem f = take (length f - 3) f"

definition isDateString :: "jsstring \<Rightarrow> bool" where
  "isDateString d =
     (length d = 10 \<and> isDigit (d ! 0) \<and> isDigit (d ! 1) \<and> isDigit (d ! 2) \<and> isDigit (d ! 3) \<and>
      d ! 4 = 45 \<and> isDigit (d ! 5) \<and> isDigit (d ! 6) \<and> d ! 7 = 45 \<and>
      isDigit (d ! 8) \<and> isDigit (d ! 9))"

definition isDatedName :: "jsstring \<Rightarrow> bool" where
  "isDatedName f = (endsWith f (ascii ''.md'') \<and> isDateString (stem f))"

definition dotMd :: jsstring where
  "dotMd = ascii ''.md''"

text \<open>The two closing log lines of a run, and a world to run the script in.\<close>

definition sentLogs :: "jsstring \<Rightarrow> event list" where
  "sentLogs date =
     [ConsoleLog (ascii ''Wrote brief: '' @ briefPath date),
      ConsoleLog (ascii ''Telegram sent (if secrets set).'')]"

definition exampleDoc :: jsstring where
  "exampleDoc = ascii ''## Notes\<newline>hello\<newline>''"

definition exampleWorld :: world where
  "exampleWorld =
     \<lparr>clock = 1700000000000, envToken = Some (ascii ''tok''), envChatId = Some (ascii ''42''),
      envRepo = None,
      files = (\<lambda>p. if p = prioritiesPath then Some exampleDoc else None),
      dirs = (\<lambda>p. Absent), mkdirOk = True, writeOk = True, reply = Answered False\<rparr>"

section \<open>Lines: split and join\<close>

text \<open>Splitting at a separator and joining with it are inverse to each other.\<close>

lemma orElse_Nil: "orElse [] p = p"
  by (simp add: orElse_def)

lemma orElse_self: "orElse p p = p"
  by (simp add: orElse_def)

lemma splitOn_not_Nil: "splitOn sep s \<noteq> []"
  by (induction s) (auto split: list.splits)

lemma splitOn_pieces: "l \<in> set (splitOn sep s) \<Longrightarrow> sep \<notin> set l"
proof (induction s arbitrary: l)
  case Nil
  then show ?case by simp
next
  case (Cons c cs)
  show ?case
  proof (cases "c = sep")
    case True
    with Cons show ?thesis by auto
  next
    case False
    obtain x xs where sp: "splitOn sep cs = x # xs"
      using splitOn_not_Nil [of sep cs] by (cases "splitOn sep cs") auto
    with Cons.prems False have "l = c # x \<or> l \<in> set xs" by simp
    then show ?thesis
    proof
      assume "l = c # x"
      moreover have "sep \<notin> set x" using Cons.IH [of x] sp by simp
      ultimately show ?thesis using False by auto
    next
      assume "l \<in> set xs"
      then show ?thesis using Cons.IH [of l] sp by simp
    qed
  qed
qed

lemma splitOn_line: "sep \<notin> set l \<Longrightarrow> splitOn sep l = [l]"
  by (induction l) auto

lemma splitOn_append_sep: "sep \<notin> set l \<Longrightarrow> splitOn sep (l @ sep # r) = l # splitOn sep r"
  by (induction l) auto

lemma splitOn_joinWith:
  "ls \<noteq> [] \<Longrightarrow> \<forall>l\<in>set ls. sep \<notin> set l \<Longrightarrow> splitOn sep (joinWith [sep] ls) = ls"
proof (induction "[sep]" ls rule: joinWith.induct)
  case 1
  then show ?case by simp
next
  case (2 x)
  then show ?case by (simp add: splitOn_line)
next
  case (3 x y ys)
  then show ?case by (simp add: splitOn_append_sep)
qed

lemma joinWith_splitOn: "joinWith [sep] (splitOn sep s) = s"
proof (induction s)
  case Nil
  then show ?case by simp
next
  case (Cons c cs)
  obtain x xs where sp: "splitOn sep cs = x # xs"
    using splitOn_not_Nil [of sep cs] by (cases "splitOn sep cs") auto
  show ?case
  proof (cases "c = sep")
    case True
    with Cons sp show ?thesis by simp
  next
    case False
    with Cons sp show ?thesis by (cases xs) auto
  qed
qed

lemma firstLines_lines:
  assumes "0 < n"
  shows "splitOn 10 (firstLines n t) = take n (splitOn 10 t)"
proof -
  have "take n (splitOn 10 t) \<noteq> []"
    using assms splitOn_not_Nil [of 10 t] by (cases "splitOn 10 t"; cases n) auto
  moreover have "\<forall>l\<in>set (take n (splitOn 10 t)). 10 \<notin> set l"
    using splitOn_pieces [of _ 10 t] by (auto dest: in_set_takeD)
  ultimately show ?thesis
    unfolding firstLines_def by (rule splitOn_joinWith)
qed

lemma many_lines_nonempty: "1 < length (splitOn sep t) \<Longrightarrow> t \<noteq> []"
  by auto

section \<open>The condensed summary keeps the leading lines\<close>

text \<open>
  Claim C2. The summary is the fixed frame around three blocks. When the priorities text
  has more than 6 newline-delimited lines its block is the first 6 of them joined by
  newlines: split again, the block is exactly those 6 lines, in order, and nothing else
  (no ellipsis). The blockers and the decisions blocks keep the first 4 lines in the same
  way.
\<close>

theorem execSummary_truncation:
  "execSummary date repo todayTop blockers decisions =
     ascii ''*Netso '' @ emDash @ ascii '' CEO Brief ('' @ date @ ascii '')*\<newline>'' @
     ascii ''*Top priorities:* '' @ (if todayTop \<noteq> [] then [] else ascii ''_(Not set)_'') @
     ascii ''\<newline>'' @ summaryTop todayTop @ ascii ''\<newline>\<newline>'' @
     ascii ''*Blockers:* '' @ summaryBlockers blockers @ ascii ''\<newline>'' @
     ascii ''*Decisions:* '' @ summaryDecisions decisions @ ascii ''\<newline>'' @
     ascii ''*Full report:* '' @ briefUrl repo date \<and>
   (6 < length (splitOn 10 todayTop) \<longrightarrow>
      summaryTop todayTop = joinWith [10] (take 6 (splitOn 10 todayTop)) \<and>
      splitOn 10 (summaryTop todayTop) = take 6 (splitOn 10 todayTop) \<and>
      length (splitOn 10 (summaryTop todayTop)) = 6) \<and>
   (4 < length (splitOn 10 blockers) \<longrightarrow>
      summaryBlockers blockers = joinWith [10] (take 4 (splitOn 10 blockers)) \<and>
      splitOn 10 (summaryBlockers blockers) = take 4 (splitOn 10 blockers) \<and>
      length (splitOn 10 (summaryBlockers blockers)) = 4) \<and>
   (4 < length (splitOn 10 decisions) \<longrightarrow>
      summaryDecisions decisions = joinWith [10] (take 4 (splitOn 10 decisions)) \<and>
      splitOn 10 (summaryDecisions decisions) = take 4 (splitOn 10 decisions) \<and>
      length (splitOn 10 (summaryDecisions decisions)) = 4)"
proof -
  have shape: "execSummary date repo todayTop blockers decisions =
     ascii ''*Netso '' @ emDash @ ascii '' CEO Brief ('' @ date @ ascii '')*\<newline>'' @
     ascii ''*Top priorities:* '' @ (if todayTop \<noteq> [] then [] else ascii ''_(Not set)_'') @
     ascii ''\<newline>'' @ summaryTop todayTop @ ascii ''\<newline>\<newline>'' @
     ascii ''*Blockers:* '' @ summaryBlockers blockers @ ascii ''\<newline>'' @
     ascii ''*Decisions:* '' @ summaryDecisions decisions @ ascii ''\<newline>'' @
     ascii ''*Full report:* '' @ briefUrl repo date"
    by (simp add: execSummary_def ascii_def)
  have trunc: "splitOn 10 (firstLines n t) = take n (splitOn 10 t) \<and>
      length (splitOn 10 (firstLines n t)) = n"
    if "0 < n" "n < length (splitOn 10 t)" for n t
    using that firstLines_lines [of n t] by simp
  have top: "summaryTop todayTop = firstLines 6 todayTop" if "6 < length (splitOn 10 todayTop)"
    using that many_lines_nonempty [of 10 todayTop] by (simp add: summaryTop_def)
  have blk: "summaryBlockers blockers = firstLines 4 blockers"
    if "4 < length (splitOn 10 blockers)"
    using that many_lines_nonempty [of 10 blockers] by (simp add: summaryBlockers_def)
  have dec: "summaryDecisions decisions = firstLines 4 decisions"
    if "4 < length (splitOn 10 decisions)"
    using that many_lines_nonempty [of 10 decisions] by (simp add: summaryDecisions_def)
  show ?thesis
    using shape top blk dec trunc [of 6 todayTop] trunc [of 4 blockers] trunc [of 4 decisions]
    by (simp add: firstLines_def)
qed

theorem execSummary_truncation_witness:
  "6 < length (splitOn 10 (ascii ''a\<newline>b\<newline>c\<newline>d\<newline>e\<newline>f\<newline>g'')) \<and>
   summaryTop (ascii ''a\<newline>b\<newline>c\<newline>d\<newline>e\<newline>f\<newline>g'') = ascii ''a\<newline>b\<newline>c\<newline>d\<newline>e\<newline>f'' \<and>
   splitOn 10 (summaryTop (ascii ''a\<newline>b\<newline>c\<newline>d\<newline>e\<newline>f\<newline>g'')) =
     [ascii ''a'', ascii ''b'', ascii ''c'', ascii ''d'', ascii ''e'', ascii ''f''] \<and>
   4 < length (splitOn 10 (ascii ''p\<newline>q\<newline>r\<newline>s\<newline>t'')) \<and>
   splitOn 10 (summaryBlockers (ascii ''p\<newline>q\<newline>r\<newline>s\<newline>t'')) =
     [ascii ''p'', ascii ''q'', ascii ''r'', ascii ''s''] \<and>
   splitOn 10 (summaryDecisions (ascii ''p\<newline>q\<newline>r\<newline>s\<newline>t'')) =
     [ascii ''p'', ascii ''q'', ascii ''r'', ascii ''s'']"
  using execSummary_truncation [of "[]" "[]" "ascii ''a\<newline>b\<newline>c\<newline>d\<newline>e\<newline>f\<newline>g''"
      "ascii ''p\<newline>q\<newline>r\<newline>s\<newline>t''" "ascii ''p\<newline>q\<newline>r\<newline>s\<newline>t''"]
  by (simp add: ascii_def)

section \<open>Placeholders of the long-form report\<close>

text \<open>
  The long-form report, written out: the fixed lines of the template with the date, the
  reference to the previous report and the four content sections in their places, each
  content section replaced by its placeholder when its text is empty.
\<close>

lemma managerReport_text:
  "managerReport date t ref b c n =
     ascii ''# Daily CEO Brief '' @ [8212] @ ascii '' Netso\<newline>'' @
     ascii ''**Date/time:** '' @ date @ ascii '' '' @ [8212] @ ascii '' 10:00 (Asia/Dhaka)\<newline>'' @
     ascii ''\<newline>'' @
     ascii ''## Detailed Manager Report\<newline>'' @
     ascii ''\<newline>'' @
     ascii ''### 1) Top priorities (in order)\<newline>'' @
     (if t = [] then ascii ''_(Not set '' @ [8212] @ ascii '' update ops/priorities.md)_'' else t) @ ascii ''  \<newline>'' @
     ascii ''\<newline>'' @
     ascii ''### 2) Progress since yesterday\<newline>'' @
     ascii ''- Reference previous brief: **'' @ ref @ ascii ''**\<newline>'' @
     ascii ''- _Update ops/run-log.md with what shipped yesterday so this section becomes factual._\<newline>'' @
     ascii ''\<newline>'' @
     ascii ''### 3) Blockers / Risks\<newline>'' @
     (if b = [] then ascii ''_None listed_'' else b) @ ascii ''  \<newline>'' @
     ascii ''\<newline>'' @
     ascii ''### 4) Decisions needed\<newline>'' @
     (if c = [] then ascii ''_None listed_'' else c) @ ascii ''  \<newline>'' @
     ascii ''\<newline>'' @
     ascii ''### 5) Docs/checklists to create or update\<newline>'' @
     ascii ''- ops/priorities.md (update daily)\<newline>'' @
     ascii ''- ops/run-log.md (log real progress)\<newline>'' @
     ascii ''- ops/briefs/'' @ date @ ascii ''.md (this report)\<newline>'' @
     ascii ''\<newline>'' @
     ascii ''## Notes\<newline>'' @
     (if n = [] then ascii ''_No notes_'' else n) @ ascii ''\<newline>''"
  by (simp add: managerReport_def orElse_def topPlaceholder_def blockersPlaceholder_def
      decisionsPlaceholder_def notesPlaceholder_def emDash_def)

text \<open>
  Claim C3, as the code has it. The long-form report is the fixed text of the template in
  which a content section whose text is empty is rendered as its fixed placeholder:
  \<open>_(Not set\<close>, an em dash, \<open>update ops/priorities.md)_\<close> for the top priorities,
  \<open>_None listed_\<close> for the blockers and for the decisions, \<open>_No notes_\<close> for the
  notes; with all four texts empty the report shows the four placeholders. The report of
  an empty text is the report of the placeholder put in its place. The placeholders of the
  priorities, of the notes and of the blockers are pairwise different, but the blockers
  and the decisions share one placeholder.
\<close>

theorem managerReport_placeholders:
  "managerReport date t ref b c n =
     ascii ''# Daily CEO Brief '' @ [8212] @ ascii '' Netso\<newline>'' @
     ascii ''**Date/time:** '' @ date @ ascii '' '' @ [8212] @ ascii '' 10:00 (Asia/Dhaka)\<newline>'' @
     ascii ''\<newline>'' @
     ascii ''## Detailed Manager Report\<newline>'' @
     ascii ''\<newline>'' @
     ascii ''### 1) Top priorities (in order)\<newline>'' @
     (if t = [] then ascii ''_(Not set '' @ [8212] @ ascii '' update ops/priorities.md)_'' else t) @ ascii ''  \<newline>'' @
     ascii ''\<newline>'' @
     ascii ''### 2) Progress since yesterday\<newline>'' @
     ascii ''- Reference previous brief: **'' @ ref @ ascii ''**\<newline>'' @
     ascii ''- _Update ops/run-log.md with what shipped yesterday so this section becomes factual._\<newline>'' @
     ascii ''\<newline>'' @
     ascii ''### 3) Blockers / Risks\<newline>'' @
     (if b = [] then ascii ''_None listed_'' else b) @ ascii ''  \<newline>'' @
     ascii ''\<newline>'' @
     ascii ''### 4) Decisions needed\<newline>'' @
     (if c = [] then ascii ''_None listed_'' else c) @ ascii ''  \<newline>'' @
     ascii ''\<newline>'' @
     ascii ''### 5) Docs/checklists to create or update\<newline>'' @
     ascii ''- ops/priorities.md (update daily)\<newline>'' @
     ascii ''- ops/run-log.md (log real progress)\<newline>'' @
     ascii ''- ops/briefs/'' @ date @ ascii ''.md (this report)\<newline>'' @
     ascii ''\<newline>'' @
     ascii ''## Notes\<newline>'' @
     (if n = [] then ascii ''_No notes_'' else n) @ ascii ''\<newline>'' \<and>
   managerReport date [] ref [] [] [] =
     ascii ''# Daily CEO Brief '' @ [8212] @ ascii '' Netso\<newline>'' @
     ascii ''**Date/time:** '' @ date @ ascii '' '' @ [8212] @ ascii '' 10:00 (Asia/Dhaka)\<newline>'' @
     ascii ''\<newline>'' @
     ascii ''## Detailed Manager Report\<newline>'' @
     ascii ''\<newline>'' @
     ascii ''### 1) Top priorities (in order)\<newline>'' @
     ascii ''_(Not set '' @ [8212] @ ascii '' update ops/priorities.md)_'' @ ascii ''  \<newline>'' @
     ascii ''\<newline>'' @
     ascii ''### 2) Progress since yesterday\<newline>'' @
     ascii ''- Reference previous brief: **'' @ ref @ ascii ''**\<newline>'' @
     ascii ''- _Update ops/run-log.md with what shipped yesterday so this section becomes factual._\<newline>'' @
     ascii ''\<newline>'' @
     ascii ''### 3) Blockers / Risks\<newline>'' @
     ascii ''_None listed_'' @ ascii ''  \<newline>'' @
     ascii ''\<newline>'' @
     ascii ''### 4) Decisions needed\<newline>'' @
     ascii ''_None listed_'' @ ascii ''  \<newline>'' @
     ascii ''\<newline>'' @
     ascii ''### 5) Docs/checklists to create or update\<newline>'' @
     ascii ''- ops/priorities.md (update daily)\<newline>'' @
     ascii ''- ops/run-log.md (log real progress)\<newline>'' @
     ascii ''- ops/briefs/'' @ date @ ascii ''.md (this report)\<newline>'' @
     ascii ''\<newline>'' @
     ascii ''## Notes\<newline>'' @
     ascii ''_No notes_'' @ ascii ''\<newline>'' \<and>
   topPlaceholder = ascii ''_(Not set '' @ [8212] @ ascii '' update ops/priorities.md)_'' \<and>
   blockersPlaceholder = ascii ''_None listed_'' \<and>
   decisionsPlaceholder = ascii ''_None listed_'' \<and>
   notesPlaceholder = ascii ''_No notes_'' \<and>
   managerReport date [] ref b c n = managerReport date topPlaceholder ref b c n \<and>
   managerReport date t ref [] c n = managerReport date t ref blockersPlaceholder c n \<and>
   managerReport date t ref b [] n = managerReport date t ref b decisionsPlaceholder n \<and>
   managerReport date t ref b c [] = managerReport date t ref b c notesPlaceholder \<and>
   topPlaceholder \<noteq> blockersPlaceholder \<and> topPlaceholder \<noteq> decisionsPlaceholder \<and>
   topPlaceholder \<noteq> notesPlaceholder \<and> blockersPlaceholder \<noteq> notesPlaceholder \<and>
   decisionsPlaceholder \<noteq> notesPlaceholder \<and> blockersPlaceholder = decisionsPlaceholder \<and>
   topPlaceholder \<noteq> [] \<and> blockersPlaceholder \<noteq> [] \<and> notesPlaceholder \<noteq> []"
proof -
  have fallback:
    "managerReport date [] ref b c n = managerReport date topPlaceholder ref b c n \<and>
     managerReport date t ref [] c n = managerReport date t ref blockersPlaceholder c n \<and>
     managerReport date t ref b [] n = managerReport date t ref b decisionsPlaceholder n \<and>
     managerReport date t ref b c [] = managerReport date t ref b c notesPlaceholder"
    by (simp add: managerReport_def orElse_Nil orElse_self)
  have lits:
    "topPlaceholder = ascii ''_(Not set '' @ [8212] @ ascii '' update ops/priorities.md)_'' \<and>
     blockersPlaceholder = ascii ''_None listed_'' \<and>
     decisionsPlaceholder = ascii ''_None listed_'' \<and>
     notesPlaceholder = ascii ''_No notes_''"
    by (simp add: topPlaceholder_def blockersPlaceholder_def decisionsPlaceholder_def
        notesPlaceholder_def emDash_def)
  have diff:
    "topPlaceholder \<noteq> blockersPlaceholder \<and> topPlaceholder \<noteq> decisionsPlaceholder \<and>
     topPlaceholder \<noteq> notesPlaceholder \<and> blockersPlaceholder \<noteq> notesPlaceholder \<and>
     decisionsPlaceholder \<noteq> notesPlaceholder \<and> blockersPlaceholder = decisionsPlaceholder \<and>
     topPlaceholder \<noteq> [] \<and> blockersPlaceholder \<noteq> [] \<and> notesPlaceholder \<noteq> []"
    by (simp add: topPlaceholder_def blockersPlaceholder_def decisionsPlaceholder_def
        notesPlaceholder_def ascii_def emDash_def)
  have empty: "managerReport date [] ref [] [] [] =
     ascii ''# Daily CEO Brief '' @ [8212] @ ascii '' Netso\<newline>'' @
     ascii ''**Date/time:** '' @ date @ ascii '' '' @ [8212] @ ascii '' 10:00 (Asia/Dhaka)\<newline>'' @
     ascii ''\<newline>'' @
     ascii ''## Detailed Manager Report\<newline>'' @
     ascii ''\<newline>'' @
     ascii ''### 1) Top priorities (in order)\<newline>'' @
     ascii ''_(Not set '' @ [8212] @ ascii '' update ops/priorities.md)_'' @ ascii ''  \<newline>'' @
     ascii ''\<newline>'' @
     ascii ''### 2) Progress since yesterday\<newline>'' @
     ascii ''- Reference previous brief: **'' @ ref @ ascii ''**\<newline>'' @
     ascii ''- _Update ops/run-log.md with what shipped yesterday so this section becomes factual._\<newline>'' @
     ascii ''\<newline>'' @
     ascii ''### 3) Blockers / Risks\<newline>'' @
     ascii ''_None listed_'' @ ascii ''  \<newline>'' @
     ascii ''\<newline>'' @
     ascii ''### 4) Decisions needed\<newline>'' @
     ascii ''_None listed_'' @ ascii ''  \<newline>'' @
     ascii ''\<newline>'' @
     ascii ''### 5) Docs/checklists to create or update\<newline>'' @
     ascii ''- ops/priorities.md (update daily)\<newline>'' @
     ascii ''- ops/run-log.md (log real progress)\<newline>'' @
     ascii ''- ops/briefs/'' @ date @ ascii ''.md (this report)\<newline>'' @
     ascii ''\<newline>'' @
     ascii ''## Notes\<newline>'' @
     ascii ''_No notes_'' @ ascii ''\<newline>''"
    using managerReport_text [of date "[]" ref "[]" "[]" "[]"] by simp
  from managerReport_text [of date t ref b c n] empty lits fallback diff show ?thesis
    by blast
qed

text \<open>
  Claim C3 as stated asks for a different placeholder for every section type; the
  blockers and the decisions sections have the same one.
\<close>

theorem placeholders_not_distinct:
  "\<not> distinct [topPlaceholder, blockersPlaceholder, decisionsPlaceholder, notesPlaceholder]"
  by (simp add: blockersPlaceholder_def decisionsPlaceholder_def)

section \<open>The pattern of a heading is literal\<close>

text \<open>
  Every syntax character of the label is escaped, so the pattern built for a label always
  parses, and it parses to the label's characters as literals between the fixed pieces
  \<open>^##\s+\<close> and \<open>\s*$\<close>: no character of the label acts as pattern syntax.
\<close>

lemma escape_tail_head:
  "\<exists>q qs. escapeRegExp h @ [92, 115, 42, 36] = q # qs \<and> q \<noteq> 43 \<and> q \<noteq> 42 \<and> q \<noteq> 63 \<and> q \<noteq> 123"
  by (cases h) (auto simp: escapeRegExp_def isSyntaxChar_def)

lemma parse_tail: "parsePattern [92, 115, 42, 36] = Some [Star ClassS, AssertEol]"
  by (simp add: escapeAtom_def)

lemma parse_escaped:
  "parsePattern (escapeRegExp h @ [92, 115, 42, 36]) =
     Some (map (\<lambda>c. One (Chr c)) h @ [Star ClassS, AssertEol])"
proof (induction h)
  case Nil
  then show ?case using parse_tail by (simp add: escapeRegExp_def)
next
  case (Cons c cs)
  obtain q qs where r: "escapeRegExp cs @ [92, 115, 42, 36] = q # qs"
    and q: "q \<noteq> 43" "q \<noteq> 42" "q \<noteq> 63" "q \<noteq> 123"
    using escape_tail_head [of cs] by blast
  have e: "escapeRegExp (c # cs) = (if isSyntaxChar c then [92, c] else [c]) @ escapeRegExp cs"
    by (simp add: escapeRegExp_def)
  show ?case
  proof (cases "isSyntaxChar c")
    case True
    then have a: "escapeAtom c = Some (Chr c)"
      by (auto simp: escapeAtom_def isSyntaxChar_def)
    have "parsePattern (92 # c # q # qs) = map_option (\<lambda>ps. One (Chr c) # ps) (parsePattern (q # qs))"
      using a q by simp
    then show ?thesis using Cons.IH True e r by simp
  next
    case False
    then have c: "c \<noteq> 94" "c \<noteq> 36" "c \<noteq> 92" by (auto simp: isSyntaxChar_def)
    have "parsePattern (c # q # qs) = map_option (\<lambda>ps. One (Chr c) # ps) (parsePattern (q # qs))"
      using False c q by simp
    then show ?thesis using Cons.IH False e r by simp
  qed
qed

lemma parse_headingSource: "parsePattern (headingSource heading) = Some (headingPieces heading)"
proof -
  obtain q qs where r: "escapeRegExp heading @ [92, 115, 42, 36] = q # qs" and q: "q \<noteq> 63"
    using escape_tail_head [of heading] by blast
  have s: "headingSource heading = [94, 35, 35, 92, 115, 43] @ escapeRegExp heading @ [92, 115, 42, 36]"
    by (simp add: headingSource_def ascii_def)
  have "parsePattern ([94, 35, 35, 92, 115, 43] @ q # qs) =
      map_option (\<lambda>ps. [AssertBol, One (Chr 35), One (Chr 35), Plus ClassS] @ ps) (parsePattern (q # qs))"
    using q by (simp add: escapeAtom_def isSyntaxChar_def option.map_comp comp_def)
  then show ?thesis
    using parse_escaped [of heading] r s by (simp add: headingPieces_def)
qed

section \<open>The cases of a run\<close>

text \<open>
  A run ends in one of six ways: the date cannot be computed, the source document is
  missing or empty, the directory cannot be made, it cannot be listed, the report cannot
  be written, or the report is written and the summary is handed to \<open>sendTelegram\<close>.
\<close>

lemma extractSection_defined: "\<exists>r. extractSection doc heading = Some r"
  by (simp add: extractSection_def parse_headingSource)

lemma prioritiesPath_eq: "prioritiesPath = ascii ''ops/priorities.md''"
  by (simp add: prioritiesPath_def pathJoin_def ascii_def)

lemma briefDir_eq: "briefDir = ascii ''ops/briefs''"
  by (simp add: briefDir_def pathJoin_def ascii_def)

lemma briefPath_eq: "briefPath date = ascii ''ops/briefs/'' @ date @ ascii ''.md''"
  by (simp add: briefPath_def briefDir_def pathJoin_def ascii_def)

lemma findLatestBrief_error:
  "findLatestBrief ds d = Inl e \<Longrightarrow> ds d = Unlistable \<and> e = FsFailure"
  by (auto simp: findLatestBrief_def existsSync_def split: dirState.splits list.splits if_splits)

lemma ensureBriefDir_cases:
  "ensureBriefDir w = None \<and> \<not> existsSync (dirs w) briefDir \<and> \<not> mkdirOk w \<or>
   ensureBriefDir w = Some ([MkDir briefDir], (dirs w)(briefDir := Listing [])) \<and>
     \<not> existsSync (dirs w) briefDir \<and> mkdirOk w \<or>
   ensureBriefDir w = Some ([], dirs w) \<and> existsSync (dirs w) briefDir"
  by (simp add: ensureBriefDir_def)

lemma mainBody_cases:
  obtains
    (invalid) "todayISO (clock w) = None" "mainBody w = ([], Some InvalidTime)"
  | (missing) "readFileSafe (files w) prioritiesPath = []" "mainBody w = ([], Some MissingPriorities)"
  | (mkdir) "\<not> existsSync (dirs w) briefDir" "\<not> mkdirOk w" "mainBody w = ([], Some FsFailure)"
  | (readdir) ev1 where "dirs w briefDir = Unlistable" "ev1 = [] \<or> ev1 = [MkDir briefDir]"
      "mainBody w = (ev1, Some FsFailure)"
  | (nowrite) ev1 where "\<not> writeOk w" "ev1 = [] \<or> ev1 = [MkDir briefDir]"
      "mainBody w = (ev1, Some FsFailure)"
  | (sent) date ev1 tt bl de no latest where
      "todayISO (clock w) = Some date" "readFileSafe (files w) prioritiesPath \<noteq> []"
      "ev1 = [] \<or> ev1 = [MkDir briefDir]" "writeOk w"
      "mainBody w =
         (case sendTelegram w
                 (execSummary date (orElse (envOr (envRepo w)) (ascii ''OWNER/REPO'')) tt bl de) of
            (ev3, Some e) \<Rightarrow>
              (ev1 @ [WriteFile (briefPath date)
                        (managerReport date tt
                           (case latest of None \<Rightarrow> ascii ''N/A''
                            | Some q \<Rightarrow> if q \<noteq> [] then basename q (ascii ''.md'') else ascii ''N/A'')
                           bl de no)] @ ev3, Some e)
          | (ev3, None) \<Rightarrow>
              (ev1 @ [WriteFile (briefPath date)
                        (managerReport date tt
                           (case latest of None \<Rightarrow> ascii ''N/A''
                            | Some q \<Rightarrow> if q \<noteq> [] then basename q (ascii ''.md'') else ascii ''N/A'')
                           bl de no)] @ ev3 @ sentLogs date, None))"
      "extractSection (readFileSafe (files w) prioritiesPath)
         (ascii ''Today '' @ emDash @ ascii '' Top Priorities (in order)'') = Some tt"
      "extractSection (readFileSafe (files w) prioritiesPath) (ascii ''Blockers / Risks'') = Some bl"
      "extractSection (readFileSafe (files w) prioritiesPath) (ascii ''Decisions Needed'') = Some de"
      "extractSection (readFileSafe (files w) prioritiesPath) (ascii ''Notes'') = Some no"
      "ev1 = [MkDir briefDir] \<and> \<not> existsSync (dirs w) briefDir \<and> latest = None \<or>
       ev1 = [] \<and> findLatestBrief (dirs w) briefDir = Inr latest"
proof (cases "todayISO (clock w)")
  case None
  then have "mainBody w = ([], Some InvalidTime)" by (simp add: mainBody_def)
  with None show ?thesis by (rule invalid)
next
  case (Some date)
  define p where "p = readFileSafe (files w) prioritiesPath"
  show ?thesis
  proof (cases "p = []")
    case True
    then have "mainBody w = ([], Some MissingPriorities)"
      using Some by (simp add: mainBody_def p_def)
    with True show ?thesis unfolding p_def by (rule missing)
  next
    case False
    obtain tw tt bl de no where ex:
      "extractSection p (ascii ''This Week Outcomes (measurable)'') = Some tw"
      "extractSection p (ascii ''Today '' @ emDash @ ascii '' Top Priorities (in order)'') = Some tt"
      "extractSection p (ascii ''Blockers / Risks'') = Some bl"
      "extractSection p (ascii ''Decisions Needed'') = Some de"
      "extractSection p (ascii ''Notes'') = Some no"
      using extractSection_defined by metis
    consider
      (a) "ensureBriefDir w = None" "\<not> existsSync (dirs w) briefDir" "\<not> mkdirOk w"
    | (b) "ensureBriefDir w = Some ([MkDir briefDir], (dirs w)(briefDir := Listing []))"
          "\<not> existsSync (dirs w) briefDir"
    | (c) "ensureBriefDir w = Some ([], dirs w)" "existsSync (dirs w) briefDir"
      using ensureBriefDir_cases [of w] by (elim disjE conjE) auto
    then show ?thesis
    proof cases
      case a
      then have "mainBody w = ([], Some FsFailure)"
        using Some False by (simp add: mainBody_def p_def [symmetric])
      with a show ?thesis by (intro mkdir)
    next
      case b
      have fl: "findLatestBrief ((dirs w)(briefDir := Listing [])) briefDir = Inr None"
        by (simp add: findLatestBrief_def existsSync_def datedBriefs_def sortBy_def)
      show ?thesis
      proof (cases "writeOk w")
        case False
        then have "mainBody w = ([MkDir briefDir], Some FsFailure)"
          using Some \<open>p \<noteq> []\<close> b fl ex by (simp add: mainBody_def p_def [symmetric])
        with False show ?thesis by (intro nowrite [of "[MkDir briefDir]"]) auto
      next
        case True
        have "mainBody w =
          (case sendTelegram w (execSummary date (orElse (envOr (envRepo w)) (ascii ''OWNER/REPO'')) tt bl de) of
            (ev3, Some e) \<Rightarrow> ([MkDir briefDir] @ [WriteFile (briefPath date)
                (managerReport date tt (ascii ''N/A'') bl de no)] @ ev3, Some e)
          | (ev3, None) \<Rightarrow> ([MkDir briefDir] @ [WriteFile (briefPath date)
                (managerReport date tt (ascii ''N/A'') bl de no)] @ ev3 @ sentLogs date, None))"
          using Some \<open>p \<noteq> []\<close> b fl ex True
          by (simp add: mainBody_def p_def [symmetric] sentLogs_def split: prod.splits option.splits)
        then have mb: "mainBody w =
          (case sendTelegram w (execSummary date (orElse (envOr (envRepo w)) (ascii ''OWNER/REPO'')) tt bl de) of
            (ev3, Some e) \<Rightarrow> ([MkDir briefDir] @ [WriteFile (briefPath date)
                (managerReport date tt
                   (case None of None \<Rightarrow> ascii ''N/A''
                    | Some q \<Rightarrow> if q \<noteq> [] then basename q (ascii ''.md'') else ascii ''N/A'')
                   bl de no)] @ ev3, Some e)
          | (ev3, None) \<Rightarrow> ([MkDir briefDir] @ [WriteFile (briefPath date)
                (managerReport date tt
                   (case None of None \<Rightarrow> ascii ''N/A''
                    | Some q \<Rightarrow> if q \<noteq> [] then basename q (ascii ''.md'') else ascii ''N/A'')
                   bl de no)] @ ev3 @ sentLogs date, None))"
          by (simp split: prod.splits option.splits)
        have dj: "[MkDir briefDir] = [] \<or> [MkDir briefDir] = [MkDir briefDir]"
          by simp
        have lst: "[MkDir briefDir] = [MkDir briefDir] \<and> \<not> existsSync (dirs w) briefDir \<and>
            None = (None :: jsstring option) \<or>
            [MkDir briefDir] = [] \<and> findLatestBrief (dirs w) briefDir = Inr None"
          using b(2) by simp
        show ?thesis
          by (rule sent [OF Some \<open>p \<noteq> []\<close> [unfolded p_def] dj True mb ex(2) [unfolded p_def]
                ex(3) [unfolded p_def] ex(4) [unfolded p_def] ex(5) [unfolded p_def] lst])
      qed
    next
      case c
      show ?thesis
      proof (cases "findLatestBrief (dirs w) briefDir")
        case (Inl e)
        then have u: "dirs w briefDir = Unlistable" "e = FsFailure"
          using findLatestBrief_error by blast+
        have "mainBody w = ([], Some FsFailure)"
          using Some \<open>p \<noteq> []\<close> c Inl u ex by (simp add: mainBody_def p_def [symmetric])
        with u show ?thesis by (intro readdir [of "[]"]) auto
      next
        case (Inr l)
        define yref where "yref =
          (case l of None \<Rightarrow> ascii ''N/A''
           | Some q \<Rightarrow> if q \<noteq> [] then basename q (ascii ''.md'') else ascii ''N/A'')"
        show ?thesis
        proof (cases "writeOk w")
          case False
          then have "mainBody w = ([], Some FsFailure)"
            using Some \<open>p \<noteq> []\<close> c Inr ex by (simp add: mainBody_def p_def [symmetric])
          with False show ?thesis by (intro nowrite [of "[]"]) auto
        next
          case True
          have "mainBody w =
            (case sendTelegram w (execSummary date (orElse (envOr (envRepo w)) (ascii ''OWNER/REPO'')) tt bl de) of
              (ev3, Some e) \<Rightarrow> ([] @ [WriteFile (briefPath date)
                  (managerReport date tt yref bl de no)] @ ev3, Some e)
            | (ev3, None) \<Rightarrow> ([] @ [WriteFile (briefPath date)
                  (managerReport date tt yref bl de no)] @ ev3 @ sentLogs date, None))"
            using Some \<open>p \<noteq> []\<close> c Inr ex True
            by (simp add: mainBody_def p_def [symmetric] sentLogs_def yref_def
                split: prod.splits option.splits)
          then have mb: "mainBody w =
            (case sendTelegram w (execSummary date (orElse (envOr (envRepo w)) (ascii ''OWNER/REPO'')) tt bl de) of
              (ev3, Some e) \<Rightarrow> ([] @ [WriteFile (briefPath date)
                  (managerReport date tt yref bl de no)] @ ev3, Some e)
            | (ev3, None) \<Rightarrow> ([] @ [WriteFile (briefPath date)
                  (managerReport date tt yref bl de no)] @ ev3 @ sentLogs date, None))"
            by simp
          have dj: "[] = [] \<or> [] = [MkDir briefDir]"
            by simp
          have lst: "[] = [MkDir briefDir] \<and> \<not> existsSync (dirs w) briefDir \<and> l = None \<or>
              [] = [] \<and> findLatestBrief (dirs w) briefDir = Inr l"
            using Inr by simp
          show ?thesis
            by (rule sent [OF Some \<open>p \<noteq> []\<close> [unfolded p_def] dj True mb [unfolded yref_def]
                  ex(2) [unfolded p_def] ex(3) [unfolded p_def] ex(4) [unfolded p_def]
                  ex(5) [unfolded p_def] lst])
        qed
      qed
    qed
  qed
qed

section \<open>An example run\<close>

text \<open>The example world, run: with the token, without it, and without the source document.\<close>

lemmas regex_eval =
  ascii_def isLineTerminator_def isWhiteSpace_def isSpace_def isDigit_def trim_def
  isSyntaxChar_def escapeAtom_def atomMatches_def atBol_def atEol_def prevAfter_def
  regExpExec_def regExpSearch_def regExpTest_def escapeRegExp_def headingSource_def
  nextHeadingRe_def extractSection_def emDash_def

lemma exampleDoc_sections:
  "extractSection exampleDoc (ascii ''This Week Outcomes (measurable)'') = Some []"
  "extractSection exampleDoc (ascii ''Today '' @ emDash @ ascii '' Top Priorities (in order)'') = Some []"
  "extractSection exampleDoc (ascii ''Blockers / Risks'') = Some []"
  "extractSection exampleDoc (ascii ''Decisions Needed'') = Some []"
  "extractSection exampleDoc (ascii ''Notes'') = Some (ascii ''hello'')"
  by (simp_all add: exampleDoc_def regex_eval)

lemma exampleDoc_not_Nil: "exampleDoc \<noteq> []"
  by (simp add: exampleDoc_def ascii_def)

lemma year_example: "yearFromDay 19676 = 2023"
  by (simp add: yearFromDay_def dayFromYear_def yearDown.simps yearUp.simps)

lemma month_example: "monthFromDay 19676 = 10"
  by (simp add: monthFromDay_def year_example dayFromYear_def leapDays_def inLeapYear_def)

lemma date_example: "dateFromDay 19676 = 15"
  by (simp add: dateFromDay_def year_example month_example dayFromYear_def leapDays_def
      inLeapYear_def)

lemma today_example: "todayISO 1700000000000 = Some (ascii ''2023-11-15'')"
  by (simp add: todayISO_def toISOString_def msPerDay_def year_example month_example
      date_example isoYear_def pad2_def pad3_def pad4_def digit_def ascii_def)

lemma example_run:
  "main exampleWorld =
     ([MkDir briefDir,
       WriteFile (briefPath (ascii ''2023-11-15''))
         (managerReport (ascii ''2023-11-15'') [] (ascii ''N/A'') [] [] (ascii ''hello'')),
       Fetch (ascii ''https://api.telegram.org/bot'' @ ascii ''tok'' @ ascii ''/sendMessage'')
         (ascii ''42'') (execSummary (ascii ''2023-11-15'') (ascii ''OWNER/REPO'') [] [] []),
       ConsoleError TelegramSendFailed], 1)"
  by (simp add: main_def mainBody_def exampleWorld_def today_example readFileSafe_def
      exampleDoc_not_Nil exampleDoc_sections ensureBriefDir_def existsSync_def
      findLatestBrief_def datedBriefs_def sortBy_def sendTelegram_def envOr_def orElse_def
      ascii_def [of "''tok''"] ascii_def [of "''42''"])


lemma ascii_append: "ascii a @ ascii b = ascii (a @ b)"
  by (simp add: ascii_def)

lemma ascii_append_more: "ascii a @ ascii b @ r = ascii (a @ b) @ r"
  by (simp add: ascii_def)

lemma ascii_eq_Nil: "ascii a = [] \<longleftrightarrow> a = []"
  by (simp add: ascii_def)

lemma example_run_text:
  "main exampleWorld =
     ([MkDir (ascii ''ops/briefs''),
       WriteFile (ascii ''ops/briefs/2023-11-15.md'')
         (ascii ''# Daily CEO Brief '' @ [8212] @ ascii '' Netso\<newline>'' @
          ascii ''**Date/time:** 2023-11-15 '' @ [8212] @ ascii '' 10:00 (Asia/Dhaka)\<newline>'' @
          ascii ''\<newline>'' @
          ascii ''## Detailed Manager Report\<newline>'' @
          ascii ''\<newline>'' @
          ascii ''### 1) Top priorities (in order)\<newline>'' @
          ascii ''_(Not set '' @ [8212] @ ascii '' update ops/priorities.md)_  \<newline>'' @
          ascii ''\<newline>'' @
          ascii ''### 2) Progress since yesterday\<newline>'' @
          ascii ''- Reference previous brief: **N/A**\<newline>'' @
          ascii ''- _Update ops/run-log.md with what shipped yesterday so this section becomes factual._\<newline>'' @
          ascii ''\<newline>'' @
          ascii ''### 3) Blockers / Risks\<newline>'' @
          ascii ''_None listed_  \<newline>'' @
          ascii ''\<newline>'' @
          ascii ''### 4) Decisions needed\<newline>'' @
          ascii ''_None listed_  \<newline>'' @
          ascii ''\<newline>'' @
          ascii ''### 5) Docs/checklists to create or update\<newline>'' @
          ascii ''- ops/priorities.md (update daily)\<newline>'' @
          ascii ''- ops/run-log.md (log real progress)\<newline>'' @
          ascii ''- ops/briefs/2023-11-15.md (this report)\<newline>'' @
          ascii ''\<newline>'' @
          ascii ''## Notes\<newline>'' @
          ascii ''hello\<newline>''),
       Fetch (ascii ''https://api.telegram.org/bottok/sendMessage'') (ascii ''42'')
         (ascii ''*Netso '' @ [8212] @ ascii '' CEO Brief (2023-11-15)*\<newline>'' @
          ascii ''*Top priorities:* _(Not set)_\<newline>'' @
          ascii ''\<newline>'' @
          ascii ''\<newline>'' @
          ascii ''*Blockers:* _None listed_\<newline>'' @
          ascii ''*Decisions:* _None listed_\<newline>'' @
          ascii ''*Full report:* https://github.com/OWNER/REPO/blob/main/ops/briefs/2023-11-15.md''),
       ConsoleError TelegramSendFailed], 1)"
  by (simp add: example_run briefDir_eq briefPath_eq managerReport_text execSummary_def
      summaryTop_def summaryBlockers_def summaryDecisions_def briefUrl_def emDash_def
      ascii_append ascii_append_more ascii_eq_Nil)


lemma example_run_no_source:
  "main (exampleWorld\<lparr>files := (\<lambda>p. None)\<rparr>) = ([ConsoleError MissingPriorities], 1)"
  by (simp add: main_def mainBody_def exampleWorld_def today_example readFileSafe_def)

section \<open>Fatal and skipped runs\<close>

lemma mainBody_no_source:
  "readFileSafe (files w) prioritiesPath = [] \<Longrightarrow>
   mainBody w = ([], Some (if todayISO (clock w) = None then InvalidTime else MissingPriorities))"
  by (cases "todayISO (clock w)") (simp_all add: mainBody_def)

lemma main_no_source:
  "readFileSafe (files w) prioritiesPath = [] \<Longrightarrow>
   main w = ([ConsoleError (if todayISO (clock w) = None then InvalidTime else MissingPriorities)], 1)"
  by (simp add: main_def mainBody_no_source)

lemma sendTelegram_cases:
  "sendTelegram w txt =
     (if envOr (envToken w) = [] \<or> envOr (envChatId w) = [] then
        ([ConsoleLog (ascii ''Telegram not configured (missing secrets). Skipping send.'')], None)
      else
        ([Fetch (ascii ''https://api.telegram.org/bot'' @ envOr (envToken w) @ ascii ''/sendMessage'')
            (envOr (envChatId w)) txt],
         (case reply w of Rejected \<Rightarrow> Some FetchFailure
          | Answered ok \<Rightarrow> if ok then None else Some TelegramSendFailed)))"
  by (simp add: sendTelegram_def Let_def split: httpReply.splits)

text \<open>
  Claim C5. When the source document \<open>ops/priorities.md\<close> does not exist, the run
  ends with a non-zero exit status, and the only thing it does is print the error: no
  report file is written and no network call is made.
\<close>

theorem missing_source_is_fatal:
  assumes "files w prioritiesPath = None"
  shows "main w =
           ([ConsoleError (if todayISO (clock w) = None then InvalidTime else MissingPriorities)], 1) \<and>
         snd (main w) \<noteq> 0 \<and>
         (\<forall>e\<in>set (fst (main w)). \<not> isWrite e \<and> \<not> isFetch e)"
proof -
  have "readFileSafe (files w) prioritiesPath = []"
    using assms by (simp add: readFileSafe_def)
  then show ?thesis
    by (simp add: main_no_source isWrite_def isFetch_def)
qed

theorem missing_source_is_fatal_witness:
  "files (exampleWorld\<lparr>files := (\<lambda>p. None)\<rparr>) prioritiesPath = None \<and>
   main (exampleWorld\<lparr>files := (\<lambda>p. None)\<rparr>) = ([ConsoleError MissingPriorities], 1)"
  using missing_source_is_fatal [of "exampleWorld\<lparr>files := (\<lambda>p. None)\<rparr>"]
  by (simp add: exampleWorld_def today_example)

text \<open>
  Claim C10. A source document that exists and is empty is read as the empty string, as a
  missing one is; the run is then the run with the document missing: it fails with exit
  status 1 and writes no report.
\<close>

theorem empty_source_like_missing:
  assumes "files w prioritiesPath = Some []"
  shows "readFileSafe (files w) prioritiesPath =
           readFileSafe ((files w)(prioritiesPath := None)) prioritiesPath \<and>
         main w = main (w\<lparr>files := (files w)(prioritiesPath := None)\<rparr>) \<and>
         snd (main w) = 1 \<and>
         (\<forall>e\<in>set (fst (main w)). \<not> isWrite e \<and> \<not> isFetch e)"
proof -
  have a: "readFileSafe (files w) prioritiesPath = []"
    using assms by (simp add: readFileSafe_def)
  have b: "readFileSafe (files (w\<lparr>files := (files w)(prioritiesPath := None)\<rparr>)) prioritiesPath = []"
    by (simp add: readFileSafe_def)
  show ?thesis
    using a main_no_source [OF a] main_no_source [OF b]
    by (simp add: readFileSafe_def isWrite_def isFetch_def)
qed

theorem empty_source_like_missing_witness:
  "files (exampleWorld\<lparr>files := (\<lambda>p. Some [])\<rparr>) prioritiesPath = Some [] \<and>
   main (exampleWorld\<lparr>files := (\<lambda>p. Some [])\<rparr>) = ([ConsoleError MissingPriorities], 1) \<and>
   main (exampleWorld\<lparr>files := (\<lambda>p. Some [])\<rparr>) =
     main (exampleWorld\<lparr>files := (\<lambda>p. Some [])\<rparr>
             \<lparr>files := (files (exampleWorld\<lparr>files := (\<lambda>p. Some [])\<rparr>))(prioritiesPath := None)\<rparr>)"
  using empty_source_like_missing [of "exampleWorld\<lparr>files := (\<lambda>p. Some [])\<rparr>"]
  by (simp add: exampleWorld_def today_example main_def mainBody_def readFileSafe_def)

text \<open>
  Claim C6. When the credentials are present and the endpoint, called by the run, answers
  with a falsy \<open>ok\<close>, the run ends with exit status 1, and the report of today's date
  was written before the call: the events end with the write of the long-form report to
  \<open>ops/briefs/<date>.md\<close>, the call, and the printed error. The text written is the
  template filled with the date, the four sections extracted from \<open>ops/priorities.md\<close>
  (a placeholder for an empty one) and the name of the latest prior report.
\<close>

theorem delivery_failure_after_report:
  assumes "envOr (envToken w) \<noteq> []" and "envOr (envChatId w) \<noteq> []"
    and "reply w = Answered False"
    and "\<exists>e\<in>set (fst (main w)). isFetch e"
  shows "snd (main w) = 1 \<and>
         (\<exists>date pre doc tt bl de no ref.
            todayISO (clock w) = Some date \<and>
            files w (ascii ''ops/priorities.md'') = Some doc \<and>
            extractSection doc (ascii ''Today '' @ [8212] @ ascii '' Top Priorities (in order)'') = Some tt \<and>
            extractSection doc (ascii ''Blockers / Risks'') = Some bl \<and>
            extractSection doc (ascii ''Decisions Needed'') = Some de \<and>
            extractSection doc (ascii ''Notes'') = Some no \<and>
            (pre = [MkDir (ascii ''ops/briefs'')] \<and> ref = ascii ''N/A'' \<or>
             pre = [] \<and>
             (\<exists>latest. findLatestBrief (dirs w) (ascii ''ops/briefs'') = Inr latest \<and>
                ref = (case latest of None \<Rightarrow> ascii ''N/A''
                       | Some q \<Rightarrow> if q \<noteq> [] then basename q (ascii ''.md'') else ascii ''N/A''))) \<and>
            fst (main w) =
              pre @ [WriteFile (ascii ''ops/briefs/'' @ date @ ascii ''.md'')
                       (ascii ''# Daily CEO Brief '' @ [8212] @ ascii '' Netso\<newline>'' @
                        ascii ''**Date/time:** '' @ date @ ascii '' '' @ [8212] @ ascii '' 10:00 (Asia/Dhaka)\<newline>'' @
                        ascii ''\<newline>'' @
                        ascii ''## Detailed Manager Report\<newline>'' @
                        ascii ''\<newline>'' @
                        ascii ''### 1) Top priorities (in order)\<newline>'' @
                        (if tt = [] then ascii ''_(Not set '' @ [8212] @ ascii '' update ops/priorities.md)_'' else tt) @ ascii ''  \<newline>'' @
                        ascii ''\<newline>'' @
                        ascii ''### 2) Progress since yesterday\<newline>'' @
                        ascii ''- Reference previous brief: **'' @ ref @ ascii ''**\<newline>'' @
                        ascii ''- _Update ops/run-log.md with what shipped yesterday so this section becomes factual._\<newline>'' @
                        ascii ''\<newline>'' @
                        ascii ''### 3) Blockers / Risks\<newline>'' @
                        (if bl = [] then ascii ''_None listed_'' else bl) @ ascii ''  \<newline>'' @
                        ascii ''\<newline>'' @
                        ascii ''### 4) Decisions needed\<newline>'' @
                        (if de = [] then ascii ''_None listed_'' else de) @ ascii ''  \<newline>'' @
                        ascii ''\<newline>'' @
                        ascii ''### 5) Docs/checklists to create or update\<newline>'' @
                        ascii ''- ops/priorities.md (update daily)\<newline>'' @
                        ascii ''- ops/run-log.md (log real progress)\<newline>'' @
                        ascii ''- ops/briefs/'' @ date @ ascii ''.md (this report)\<newline>'' @
                        ascii ''\<newline>'' @
                        ascii ''## Notes\<newline>'' @
                        (if no = [] then ascii ''_No notes_'' else no) @ ascii ''\<newline>''),
                     Fetch (ascii ''https://api.telegram.org/bot'' @ envOr (envToken w) @
                            ascii ''/sendMessage'') (envOr (envChatId w))
                       (execSummary date (orElse (envOr (envRepo w)) (ascii ''OWNER/REPO''))
                          tt bl de),
                     ConsoleError TelegramSendFailed])"
proof (cases w rule: mainBody_cases)
  case invalid
  with assms(4) show ?thesis by (simp add: main_def isFetch_def)
next
  case missing
  with assms(4) show ?thesis by (simp add: main_def isFetch_def)
next
  case mkdir
  with assms(4) show ?thesis by (simp add: main_def isFetch_def)
next
  case (readdir ev1)
  with assms(4) show ?thesis by (auto simp: main_def isFetch_def)
next
  case (nowrite ev1)
  with assms(4) show ?thesis by (auto simp: main_def isFetch_def)
next
  case (sent date pre tt bl de no latest)
  define ref where "ref =
    (case latest of None \<Rightarrow> ascii ''N/A''
     | Some q \<Rightarrow> if q \<noteq> [] then basename q (ascii ''.md'') else ascii ''N/A'')"
  obtain doc where doc: "files w (ascii ''ops/priorities.md'') = Some doc"
      "readFileSafe (files w) prioritiesPath = doc"
    using sent(2) by (auto simp: readFileSafe_def prioritiesPath_eq split: option.splits)
  have sec:
    "extractSection doc (ascii ''Today '' @ [8212] @ ascii '' Top Priorities (in order)'') = Some tt \<and>
     extractSection doc (ascii ''Blockers / Risks'') = Some bl \<and>
     extractSection doc (ascii ''Decisions Needed'') = Some de \<and>
     extractSection doc (ascii ''Notes'') = Some no"
    using sent(6-9) by (simp add: doc(2) emDash_def)
  have r:
    "(pre = [MkDir (ascii ''ops/briefs'')] \<and> ref = ascii ''N/A'' \<or>
      pre = [] \<and>
      (\<exists>latest. findLatestBrief (dirs w) (ascii ''ops/briefs'') = Inr latest \<and>
         ref = (case latest of None \<Rightarrow> ascii ''N/A''
                | Some q \<Rightarrow> if q \<noteq> [] then basename q (ascii ''.md'') else ascii ''N/A'')))"
    using sent(10) by (auto simp: ref_def briefDir_eq)
  have m: "main w =
      (pre @ [WriteFile (ascii ''ops/briefs/'' @ date @ ascii ''.md'')
                (managerReport date tt ref bl de no),
              Fetch (ascii ''https://api.telegram.org/bot'' @ envOr (envToken w) @
                     ascii ''/sendMessage'') (envOr (envChatId w))
                (execSummary date (orElse (envOr (envRepo w)) (ascii ''OWNER/REPO'')) tt bl de),
              ConsoleError TelegramSendFailed], 1)"
    using sent(5) assms(1-3) by (simp add: main_def sendTelegram_cases ref_def briefPath_eq)
  have s: "snd (main w) = 1"
    using m by simp
  have e: "fst (main w) =
      pre @ [WriteFile (ascii ''ops/briefs/'' @ date @ ascii ''.md'')
               (ascii ''# Daily CEO Brief '' @ [8212] @ ascii '' Netso\<newline>'' @
                ascii ''**Date/time:** '' @ date @ ascii '' '' @ [8212] @ ascii '' 10:00 (Asia/Dhaka)\<newline>'' @
                ascii ''\<newline>'' @
                ascii ''## Detailed Manager Report\<newline>'' @
                ascii ''\<newline>'' @
                ascii ''### 1) Top priorities (in order)\<newline>'' @
                (if tt = [] then ascii ''_(Not set '' @ [8212] @ ascii '' update ops/priorities.md)_'' else tt) @ ascii ''  \<newline>'' @
                ascii ''\<newline>'' @
                ascii ''### 2) Progress since yesterday\<newline>'' @
                ascii ''- Reference previous brief: **'' @ ref @ ascii ''**\<newline>'' @
                ascii ''- _Update ops/run-log.md with what shipped yesterday so this section becomes factual._\<newline>'' @
                ascii ''\<newline>'' @
                ascii ''### 3) Blockers / Risks\<newline>'' @
                (if bl = [] then ascii ''_None listed_'' else bl) @ ascii ''  \<newline>'' @
                ascii ''\<newline>'' @
                ascii ''### 4) Decisions needed\<newline>'' @
                (if de = [] then ascii ''_None listed_'' else de) @ ascii ''  \<newline>'' @
                ascii ''\<newline>'' @
                ascii ''### 5) Docs/checklists to create or update\<newline>'' @
                ascii ''- ops/priorities.md (update daily)\<newline>'' @
                ascii ''- ops/run-log.md (log real progress)\<newline>'' @
                ascii ''- ops/briefs/'' @ date @ ascii ''.md (this report)\<newline>'' @
                ascii ''\<newline>'' @
                ascii ''## Notes\<newline>'' @
                (if no = [] then ascii ''_No notes_'' else no) @ ascii ''\<newline>''),
             Fetch (ascii ''https://api.telegram.org/bot'' @ envOr (envToken w) @
                    ascii ''/sendMessage'') (envOr (envChatId w))
               (execSummary date (orElse (envOr (envRepo w)) (ascii ''OWNER/REPO'')) tt bl de),
             ConsoleError TelegramSendFailed]"
    unfolding m managerReport_text by simp
  from s sent(1) doc(1) sec r e show ?thesis
    by blast
qed

theorem delivery_failure_after_report_witness:
  "envOr (envToken exampleWorld) \<noteq> [] \<and> envOr (envChatId exampleWorld) \<noteq> [] \<and>
   reply exampleWorld = Answered False \<and>
   (\<exists>e\<in>set (fst (main exampleWorld)). isFetch e) \<and>
   snd (main exampleWorld) = 1 \<and>
   fst (main exampleWorld) =
     [MkDir (ascii ''ops/briefs''),
      WriteFile (ascii ''ops/briefs/2023-11-15.md'')
        (ascii ''# Daily CEO Brief '' @ [8212] @ ascii '' Netso\<newline>'' @
         ascii ''**Date/time:** 2023-11-15 '' @ [8212] @ ascii '' 10:00 (Asia/Dhaka)\<newline>'' @
         ascii ''\<newline>'' @
         ascii ''## Detailed Manager Report\<newline>'' @
         ascii ''\<newline>'' @
         ascii ''### 1) Top priorities (in order)\<newline>'' @
         ascii ''_(Not set '' @ [8212] @ ascii '' update ops/priorities.md)_  \<newline>'' @
         ascii ''\<newline>'' @
         ascii ''### 2) Progress since yesterday\<newline>'' @
         ascii ''- Reference previous brief: **N/A**\<newline>'' @
         ascii ''- _Update ops/run-log.md with what shipped yesterday so this section becomes factual._\<newline>'' @
         ascii ''\<newline>'' @
         ascii ''### 3) Blockers / Risks\<newline>'' @
         ascii ''_None listed_  \<newline>'' @
         ascii ''\<newline>'' @
         ascii ''### 4) Decisions needed\<newline>'' @
         ascii ''_None listed_  \<newline>'' @
         ascii ''\<newline>'' @
         ascii ''### 5) Docs/checklists to create or update\<newline>'' @
         ascii ''- ops/priorities.md (update daily)\<newline>'' @
         ascii ''- ops/run-log.md (log real progress)\<newline>'' @
         ascii ''- ops/briefs/2023-11-15.md (this report)\<newline>'' @
         ascii ''\<newline>'' @
         ascii ''## Notes\<newline>'' @
         ascii ''hello\<newline>''),
      Fetch (ascii ''https://api.telegram.org/bottok/sendMessage'') (ascii ''42'')
        (ascii ''*Netso '' @ [8212] @ ascii '' CEO Brief (2023-11-15)*\<newline>'' @
         ascii ''*Top priorities:* _(Not set)_\<newline>'' @
         ascii ''\<newline>'' @
         ascii ''\<newline>'' @
         ascii ''*Blockers:* _None listed_\<newline>'' @
         ascii ''*Decisions:* _None listed_\<newline>'' @
         ascii ''*Full report:* https://github.com/OWNER/REPO/blob/main/ops/briefs/2023-11-15.md''),
      ConsoleError TelegramSendFailed]"
proof -
  have h: "envOr (envToken exampleWorld) \<noteq> []" "envOr (envChatId exampleWorld) \<noteq> []"
      "reply exampleWorld = Answered False"
    by (simp_all add: exampleWorld_def envOr_def ascii_def)
  have f: "\<exists>e\<in>set (fst (main exampleWorld)). isFetch e"
    by (simp add: example_run isFetch_def)
  have s: "snd (main exampleWorld) = 1"
    using delivery_failure_after_report [of exampleWorld, OF h f] by (rule conjunct1)
  have t: "fst (main exampleWorld) =
     [MkDir (ascii ''ops/briefs''),
      WriteFile (ascii ''ops/briefs/2023-11-15.md'')
        (ascii ''# Daily CEO Brief '' @ [8212] @ ascii '' Netso\<newline>'' @
         ascii ''**Date/time:** 2023-11-15 '' @ [8212] @ ascii '' 10:00 (Asia/Dhaka)\<newline>'' @
         ascii ''\<newline>'' @
         ascii ''## Detailed Manager Report\<newline>'' @
         ascii ''\<newline>'' @
         ascii ''### 1) Top priorities (in order)\<newline>'' @
         ascii ''_(Not set '' @ [8212] @ ascii '' update ops/priorities.md)_  \<newline>'' @
         ascii ''\<newline>'' @
         ascii ''### 2) Progress since yesterday\<newline>'' @
         ascii ''- Reference previous brief: **N/A**\<newline>'' @
         ascii ''- _Update ops/run-log.md with what shipped yesterday so this section becomes factual._\<newline>'' @
         ascii ''\<newline>'' @
         ascii ''### 3) Blockers / Risks\<newline>'' @
         ascii ''_None listed_  \<newline>'' @
         ascii ''\<newline>'' @
         ascii ''### 4) Decisions needed\<newline>'' @
         ascii ''_None listed_  \<newline>'' @
         ascii ''\<newline>'' @
         ascii ''### 5) Docs/checklists to create or update\<newline>'' @
         ascii ''- ops/priorities.md (update daily)\<newline>'' @
         ascii ''- ops/run-log.md (log real progress)\<newline>'' @
         ascii ''- ops/briefs/2023-11-15.md (this report)\<newline>'' @
         ascii ''\<newline>'' @
         ascii ''## Notes\<newline>'' @
         ascii ''hello\<newline>''),
      Fetch (ascii ''https://api.telegram.org/bottok/sendMessage'') (ascii ''42'')
        (ascii ''*Netso '' @ [8212] @ ascii '' CEO Brief (2023-11-15)*\<newline>'' @
         ascii ''*Top priorities:* _(Not set)_\<newline>'' @
         ascii ''\<newline>'' @
         ascii ''\<newline>'' @
         ascii ''*Blockers:* _None listed_\<newline>'' @
         ascii ''*Decisions:* _None listed_\<newline>'' @
         ascii ''*Full report:* https://github.com/OWNER/REPO/blob/main/ops/briefs/2023-11-15.md''),
      ConsoleError TelegramSendFailed]"
    by (simp add: example_run_text)
  from h f s t show ?thesis
    by blast
qed




section \<open>The latest prior report\<close>

lemma execFrom_Bol_inner: "execFrom False (AssertBol # ps) (Some c) s idx = None"
  by (induction s arbitrary: c idx) (simp_all add: atBol_def)

lemma regExpTest_Bol:
  "regExpTest False (AssertBol # ps) s = (matchPieces False ps None s \<noteq> None)"
  by (cases s) (simp_all add: regExpTest_def regExpExec_def atBol_def execFrom_Bol_inner
      split: option.splits)

lemma matchPieces_Ones:
  "matchPieces ml (map One as @ ps) prev s =
     (if length as \<le> length s \<and> (\<forall>i<length as. atomMatches (as ! i) (s ! i))
      then map_option (\<lambda>r. length as + r)
             (matchPieces ml ps (prevAfter prev s (length as)) (drop (length as) s))
      else None)"
proof (induction as arbitrary: prev s)
  case Nil
  show ?case by (cases "matchPieces ml ps prev s") (simp_all add: prevAfter_def)
next
  case (Cons a as)
  show ?case
  proof (cases s)
    case Nil
    then show ?thesis by simp
  next
    case (Cons c cs)
    have p: "prevAfter (Some c) cs (length as) = prevAfter prev (c # cs) (Suc (length as))"
      by (cases "length as") (simp_all add: prevAfter_def)
    have q: "(\<forall>i<Suc (length as). atomMatches ((a # as) ! i) ((c # cs) ! i)) =
        (atomMatches a c \<and> (\<forall>i<length as. atomMatches (as ! i) (cs ! i)))"
      by (auto simp: All_less_Suc2)
    show ?thesis
      using Cons Cons.IH [of "Some c" cs] p q
      by (auto simp: option.map_comp comp_def)
  qed
qed

lemma dateRe_eq:
  "dateRe = AssertBol #
     map One [ClassD, ClassD, ClassD, ClassD, Chr 45, ClassD, ClassD, Chr 45, ClassD, ClassD] @
     [AssertEol]"
  by (simp add: dateRe_def eval_nat_numeral)

lemma All_less_10:
  "(\<forall>i<10. P i) = (P 0 \<and> P 1 \<and> P 2 \<and> P 3 \<and> P 4 \<and> P 5 \<and> P 6 \<and> P 7 \<and> P 8 \<and> P (9::nat))"
proof
  assume "\<forall>i<10. P i"
  then show "P 0 \<and> P 1 \<and> P 2 \<and> P 3 \<and> P 4 \<and> P 5 \<and> P 6 \<and> P 7 \<and> P 8 \<and> P 9" by simp
next
  assume a: "P 0 \<and> P 1 \<and> P 2 \<and> P 3 \<and> P 4 \<and> P 5 \<and> P 6 \<and> P 7 \<and> P 8 \<and> P 9"
  show "\<forall>i<10. P i"
  proof (intro allI impI)
    fix i :: nat
    assume "i < 10"
    then have "i = 0 \<or> i = 1 \<or> i = 2 \<or> i = 3 \<or> i = 4 \<or> i = 5 \<or> i = 6 \<or> i = 7 \<or> i = 8 \<or> i = 9"
      by arith
    with a show "P i" by blast
  qed
qed

lemma atEol_single_line: "atEol False s = (s = [])"
  by (cases s) (simp_all add: atEol_def)

lemma regExpTest_anchored_Ones:
  "length as = 10 \<Longrightarrow>
   regExpTest False (AssertBol # map One as @ [AssertEol]) d =
     (length d = 10 \<and> (\<forall>i<10. atomMatches (as ! i) (d ! i)))"
  unfolding regExpTest_Bol matchPieces_Ones by (auto simp: atEol_single_line)

lemma dateRe_test: "regExpTest False dateRe d = isDateString d"
proof -
  have "regExpTest False dateRe d =
     (length d = 10 \<and>
      (\<forall>i<10. atomMatches
          ([ClassD, ClassD, ClassD, ClassD, Chr 45, ClassD, ClassD, Chr 45, ClassD, ClassD] ! i)
          (d ! i)))"
    unfolding dateRe_eq by (rule regExpTest_anchored_Ones) simp
  also have "\<dots> = isDateString d"
    unfolding All_less_10 by (auto simp: isDateString_def atomMatches_def)
  finally show ?thesis .
qed

lemma md_eq: "dotMd = [46, 109, 100]"
  by (simp add: dotMd_def ascii_def)

lemma length_md: "length dotMd = 3"
  by (simp add: md_eq)

lemma replaceFirst_hit:
  "take (length pat) (c # cs) = pat \<Longrightarrow>
   replaceFirst pat rep (c # cs) = rep @ drop (length pat) (c # cs)"
  by simp

lemma replaceFirst_miss:
  "take (length pat) (c # cs) \<noteq> pat \<Longrightarrow>
   replaceFirst pat rep (c # cs) = c # replaceFirst pat rep cs"
  by simp

lemma endsWith_md: "endsWith f dotMd = (\<exists>s. f = s @ dotMd)"
proof
  assume "endsWith f dotMd"
  then have "f = take (length f - 3) f @ dotMd"
    by (metis append_take_drop_id endsWith_def md_eq length_Cons list.size(3) numeral_3_eq_3)
  then show "\<exists>s. f = s @ dotMd" ..
next
  assume "\<exists>s. f = s @ dotMd"
  then show "endsWith f dotMd" by (auto simp: endsWith_def)
qed

lemma stem_append_md: "stem (s @ dotMd) = s"
  by (simp add: stem_def md_eq)

lemma replaceFirst_md_shape:
  "endsWith f dotMd \<Longrightarrow>
   replaceFirst dotMd [] f = stem f \<or> (replaceFirst dotMd [] f \<noteq> [] \<and> last (replaceFirst dotMd [] f) = 100)"
proof (induction f)
  case Nil
  then show ?case by (simp add: endsWith_def md_eq)
next
  case (Cons c cs)
  from Cons.prems obtain s where s: "c # cs = s @ dotMd" using endsWith_md by blast
  show ?case
  proof (cases "take 3 (c # cs) = dotMd")
    case True
    then have r: "replaceFirst dotMd [] (c # cs) = drop 3 (c # cs)"
      using replaceFirst_hit [of dotMd c cs "[]"] by (simp add: length_md)
    show ?thesis
    proof (cases "s = []")
      case True
      with s r show ?thesis by (simp add: stem_def md_eq)
    next
      case False
      then have l: "3 < length (s @ dotMd)" by (cases s) (simp_all add: length_md)
      then have "drop 3 (s @ dotMd) \<noteq> []" by (metis drop_eq_Nil leD)
      moreover have "last (drop 3 (s @ dotMd)) = 100"
        using last_drop [OF l] by (simp add: md_eq)
      ultimately show ?thesis using r s by simp
    qed
  next
    case False
    then have r: "replaceFirst dotMd [] (c # cs) = c # replaceFirst dotMd [] cs"
      using replaceFirst_miss [of dotMd c cs "[]"] by (simp add: length_md)
    from False s have "s \<noteq> []" by (auto simp: md_eq)
    then obtain s' where s': "s = c # s'" "cs = s' @ dotMd" using s by (cases s) auto
    then have "endsWith cs dotMd" using endsWith_md by blast
    from Cons.IH [OF this] show ?thesis
      using r s' by (auto simp: stem_append_md stem_def md_eq)
  qed
qed

lemma replaceFirst_no_dot: "46 \<notin> set s \<Longrightarrow> replaceFirst dotMd [] (s @ dotMd) = s"
proof (induction s)
  case Nil
  show ?case using replaceFirst_hit [of dotMd 46 "[109, 100]" "[]"] by (simp add: md_eq)
next
  case (Cons c s)
  then have "take (length dotMd) (c # (s @ dotMd)) \<noteq> dotMd" by (auto simp: md_eq)
  from replaceFirst_miss [OF this] Cons show ?case by simp
qed

lemma isDateString_last: "isDateString d \<Longrightarrow> d \<noteq> [] \<and> last d \<noteq> 100"
proof -
  assume a: "isDateString d"
  then have "length d = 10" "isDigit (d ! 9)" by (simp_all add: isDateString_def)
  then have "d \<noteq> []" by auto
  then have "last d = d ! 9" using \<open>length d = 10\<close> by (simp add: last_conv_nth)
  with \<open>d \<noteq> []\<close> \<open>isDigit (d ! 9)\<close> show ?thesis by (auto simp: isDigit_def)
qed

lemma isDateString_no_dot: "isDateString d \<Longrightarrow> 46 \<notin> set d"
proof
  assume a: "isDateString d" and "46 \<in> set d"
  then obtain i where i: "i < 10" "d ! i = 46" by (auto simp: in_set_conv_nth isDateString_def)
  then have "i = 0 \<or> i = 1 \<or> i = 2 \<or> i = 3 \<or> i = 4 \<or> i = 5 \<or> i = 6 \<or> i = 7 \<or> i = 8 \<or> i = 9"
    by arith
  with a i(2) show False by (auto simp: isDateString_def isDigit_def)
qed

lemma dated_replace:
  assumes "endsWith f dotMd"
  shows "isDateString (replaceFirst dotMd [] f) = isDateString (stem f)"
    and "isDateString (stem f) \<Longrightarrow> replaceFirst dotMd [] f = stem f"
proof -
  obtain s where s: "f = s @ dotMd" using assms endsWith_md by blast
  show b: "replaceFirst dotMd [] f = stem f" if "isDateString (stem f)"
    using that s replaceFirst_no_dot [of s] isDateString_no_dot [of s] by (simp add: stem_append_md)
  show "isDateString (replaceFirst dotMd [] f) = isDateString (stem f)"
    using replaceFirst_md_shape [OF assms] isDateString_last [of "replaceFirst dotMd [] f"] b
    by auto
qed

lemma set_insertBy: "set (insertBy cmp x ys) = insert x (set ys)"
  by (induction ys) auto

lemma set_sortBy: "set (sortBy cmp xs) = set xs"
  by (induction xs) (simp_all add: sortBy_def set_insertBy)

lemma sortBy_Cons: "sortBy cmp (x # xs) = insertBy cmp x (sortBy cmp xs)"
  by (simp add: sortBy_def)

lemma sortBy_Nil_iff: "(sortBy cmp xs = []) = (xs = [])"
  using set_sortBy [of cmp xs] by (metis set_empty)

lemma hd_insertBy:
  "hd (insertBy cmp x ys) = (if ys = [] \<or> cmp x (hd ys) \<le> 0 then x else hd ys)"
  by (cases ys) auto

lemma descending_le: "(descending a b \<le> 0) = (snd b \<le> snd a)"
  by (auto simp: descending_def)

lemma hd_sortBy_descending:
  "xs \<noteq> [] \<Longrightarrow> \<forall>y\<in>set xs. snd y \<le> snd (hd (sortBy descending xs))"
proof (induction xs)
  case Nil
  then show ?case by simp
next
  case (Cons x xs)
  show ?case
  proof (cases "xs = []")
    case True
    then show ?thesis by (simp add: sortBy_def)
  next
    case False
    then have s: "sortBy descending xs \<noteq> []" by (simp add: sortBy_Nil_iff)
    from Cons.IH [OF False] have ih: "\<forall>y\<in>set xs. snd y \<le> snd (hd (sortBy descending xs))" .
    show ?thesis
    proof (cases "snd (hd (sortBy descending xs)) \<le> snd x")
      case True
      then have "hd (sortBy descending (x # xs)) = x"
        by (simp add: sortBy_Cons hd_insertBy descending_le)
      with ih True show ?thesis by auto
    next
      case False
      then have "hd (sortBy descending (x # xs)) = hd (sortBy descending xs)"
        using s by (simp add: sortBy_Cons hd_insertBy descending_le)
      with ih False show ?thesis by auto
    qed
  qed
qed

lemma set_dated:
  "set (filter (\<lambda>x. regExpTest False dateRe (snd x))
          (map (\<lambda>f. (f, replaceFirst dotMd [] f)) (filter (\<lambda>f. endsWith f dotMd) names))) =
   {(f, stem f) | f. f \<in> set names \<and> isDatedName f}"
  using dated_replace by (auto simp: dateRe_test isDatedName_def dotMd_def [symmetric])

lemma set_datedBriefs: "set (datedBriefs names) = {(f, stem f) | f. f \<in> set names \<and> isDatedName f}"
  unfolding datedBriefs_def set_sortBy dotMd_def [symmetric] by (rule set_dated)

lemma datedBriefs_hd:
  assumes "datedBriefs names = x # xs"
  shows "\<exists>f. x = (f, stem f) \<and> f \<in> set names \<and> isDatedName f \<and>
             (\<forall>g\<in>set names. isDatedName g \<longrightarrow> stem g \<le> stem f)"
proof -
  define D where "D = filter (\<lambda>x. regExpTest False dateRe (snd x))
          (map (\<lambda>f. (f, replaceFirst dotMd [] f)) (filter (\<lambda>f. endsWith f dotMd) names))"
  have d: "datedBriefs names = sortBy descending D"
    by (simp add: datedBriefs_def D_def dotMd_def)
  have sD: "set D = {(f, stem f) | f. f \<in> set names \<and> isDatedName f}"
    unfolding D_def by (rule set_dated)
  from assms d have "D \<noteq> []" using sortBy_Nil_iff [of descending D] by auto
  from hd_sortBy_descending [OF this] have m: "\<forall>y\<in>set D. snd y \<le> snd x"
    using assms d by simp
  have "x \<in> set D" using assms d set_sortBy [of descending D] by (metis list.set_intros(1))
  then obtain f where f: "x = (f, stem f)" "f \<in> set names" "isDatedName f" using sD by auto
  have "\<forall>g\<in>set names. isDatedName g \<longrightarrow> stem g \<le> stem f"
  proof (intro ballI impI)
    fix g assume "g \<in> set names" "isDatedName g"
    then have "(g, stem g) \<in> set D" using sD by auto
    with m f show "stem g \<le> stem f" by auto
  qed
  with f show ?thesis by blast
qed

lemma dated_name_stem: "isDatedName f \<Longrightarrow> f = stem f @ dotMd"
  using endsWith_md stem_append_md by (auto simp: isDatedName_def dotMd_def [symmetric])

text \<open>
  Claim C4. For the distinct file names of the output directory, the latest prior report
  is the file whose name without the extension \<open>.md\<close> is a date string
  \<open>YYYY-MM-DD\<close> and is the greatest such string in lexicographic order; other
  names are ignored. The result is null when the directory is missing and when no name
  matches (an empty directory among them).
\<close>

theorem findLatestBrief_latest:
  "(ds dir = Absent \<longrightarrow> findLatestBrief ds dir = Inr None) \<and>
   (ds dir = Listing names \<and> distinct names \<longrightarrow>
      (findLatestBrief ds dir = Inr None) = (\<forall>g\<in>set names. \<not> isDatedName g) \<and>
      (\<forall>f. (findLatestBrief ds dir = Inr (Some (pathJoin dir f))) =
            (f \<in> set names \<and> isDatedName f \<and>
             (\<forall>g\<in>set names. isDatedName g \<longrightarrow> stem g \<le> stem f))) \<and>
      (\<exists>r. findLatestBrief ds dir = Inr r \<and> (r = None \<or> (\<exists>f. r = Some (pathJoin dir f)))))"
proof (intro conjI impI)
  assume "ds dir = Absent"
  then show "findLatestBrief ds dir = Inr None"
    by (simp add: findLatestBrief_def existsSync_def)
next
  assume a: "ds dir = Listing names \<and> distinct names"
  then have fl: "findLatestBrief ds dir =
      (case datedBriefs names of [] \<Rightarrow> Inr None | x # _ \<Rightarrow> Inr (Some (pathJoin dir (fst x))))"
    by (simp add: findLatestBrief_def existsSync_def)
  show "(findLatestBrief ds dir = Inr None) = (\<forall>g\<in>set names. \<not> isDatedName g)"
  proof (cases "datedBriefs names")
    case Nil
    then have "set (datedBriefs names) = {}" by simp
    then have "\<forall>g\<in>set names. \<not> isDatedName g" unfolding set_datedBriefs by blast
    with Nil fl show ?thesis by simp
  next
    case (Cons x xs)
    from datedBriefs_hd [OF this] have "\<exists>g\<in>set names. isDatedName g" by blast
    with Cons fl show ?thesis by auto
  qed
  show "\<forall>f. (findLatestBrief ds dir = Inr (Some (pathJoin dir f))) =
            (f \<in> set names \<and> isDatedName f \<and>
             (\<forall>g\<in>set names. isDatedName g \<longrightarrow> stem g \<le> stem f))"
  proof
    fix f
    show "(findLatestBrief ds dir = Inr (Some (pathJoin dir f))) =
            (f \<in> set names \<and> isDatedName f \<and>
             (\<forall>g\<in>set names. isDatedName g \<longrightarrow> stem g \<le> stem f))"
    proof (cases "datedBriefs names")
      case Nil
      then have "set (datedBriefs names) = {}" by simp
      then have "\<forall>g\<in>set names. \<not> isDatedName g" unfolding set_datedBriefs by blast
      with Nil fl show ?thesis by auto
    next
      case (Cons x xs)
      from datedBriefs_hd [OF this] obtain h where h: "x = (h, stem h)" "h \<in> set names"
        "isDatedName h" "\<forall>g\<in>set names. isDatedName g \<longrightarrow> stem g \<le> stem h" by blast
      have r: "findLatestBrief ds dir = Inr (Some (pathJoin dir h))"
        using fl Cons h(1) by simp
      show ?thesis
      proof
        assume "findLatestBrief ds dir = Inr (Some (pathJoin dir f))"
        with r have "f = h" by (simp add: pathJoin_def)
        with h show "f \<in> set names \<and> isDatedName f \<and>
             (\<forall>g\<in>set names. isDatedName g \<longrightarrow> stem g \<le> stem f)" by simp
      next
        assume b: "f \<in> set names \<and> isDatedName f \<and>
             (\<forall>g\<in>set names. isDatedName g \<longrightarrow> stem g \<le> stem f)"
        with h have "stem h \<le> stem f" "stem f \<le> stem h" by auto
        then have "stem f = stem h" by simp
        then have "f = h" using dated_name_stem [of f] dated_name_stem [of h] b h(3) by simp
        with r show "findLatestBrief ds dir = Inr (Some (pathJoin dir f))" by simp
      qed
    qed
  qed
  show "\<exists>r. findLatestBrief ds dir = Inr r \<and> (r = None \<or> (\<exists>f. r = Some (pathJoin dir f)))"
    using fl by (cases "datedBriefs names") auto
qed

lemma isDatedName_examples:
  "isDatedName (ascii ''2024-01-01.md'')" "isDatedName (ascii ''2024-02-15.md'')"
  "\<not> isDatedName (ascii ''notes.md'')"
  by (simp_all add: isDatedName_def isDateString_def stem_def endsWith_def isDigit_def ascii_def)

theorem findLatestBrief_latest_witness:
  "(\<lambda>p. if p = briefDir
         then Listing [ascii ''2024-01-01.md'', ascii ''2024-02-15.md'', ascii ''notes.md'']
         else Absent) briefDir =
     Listing [ascii ''2024-01-01.md'', ascii ''2024-02-15.md'', ascii ''notes.md''] \<and>
   distinct [ascii ''2024-01-01.md'', ascii ''2024-02-15.md'', ascii ''notes.md''] \<and>
   findLatestBrief
     (\<lambda>p. if p = briefDir
           then Listing [ascii ''2024-01-01.md'', ascii ''2024-02-15.md'', ascii ''notes.md'']
           else Absent) briefDir =
     Inr (Some (pathJoin briefDir (ascii ''2024-02-15.md''))) \<and>
   findLatestBrief (\<lambda>p. Absent) briefDir = Inr None"
proof -
  have o: "stem (ascii ''2024-01-01.md'') \<le> stem (ascii ''2024-02-15.md'')"
    by (simp add: stem_def ascii_def)
  have d: "distinct [ascii ''2024-01-01.md'', ascii ''2024-02-15.md'', ascii ''notes.md'']"
    by (simp add: ascii_def)
  show ?thesis
    using findLatestBrief_latest [of
        "\<lambda>p. if p = briefDir
           then Listing [ascii ''2024-01-01.md'', ascii ''2024-02-15.md'', ascii ''notes.md'']
           else Absent" briefDir
        "[ascii ''2024-01-01.md'', ascii ''2024-02-15.md'', ascii ''notes.md'']"]
      findLatestBrief_latest [of "\<lambda>p. Absent" briefDir "[]"]
      isDatedName_examples o d
    by simp
qed

section \<open>The date of today\<close>

text \<open>
  The year found by stepping is the year of ECMAScript's YearFromTime, and year, month and
  day of a day number are the calendar date with that day number.
\<close>

lemma dayFromYear_mono_nat: "dayFromYear y + 365 * int n \<le> dayFromYear (y + int n)"
proof (induction n)
  case 0
  then show ?case by simp
next
  case (Suc n)
  have "dayFromYear (y + int (Suc n)) = dayFromYear (y + int n) + daysInYear (y + int n)"
    using dayFromYear_succ [of "y + int n"] by (simp add: algebra_simps)
  with Suc daysInYear_pos(1) [of "y + int n"] show ?case by simp
qed

lemma dayFromYear_mono: "y \<le> z \<Longrightarrow> dayFromYear y \<le> dayFromYear z"
  using dayFromYear_mono_nat [of y "nat (z - y)"] by simp

lemma dayFromYear_strict: "y < z \<Longrightarrow> dayFromYear (y + 1) \<le> dayFromYear z"
  by (rule dayFromYear_mono) simp

lemma yearDown_le: "dayFromYear (yearDown y d) \<le> d"
proof (induction y d rule: yearDown.induct)
  case (1 y d)
  show ?case
  proof (cases "d < dayFromYear y")
    case True
    then have "yearDown y d = yearDown (y - 1) d" by (subst yearDown.simps) simp
    with 1 True show ?thesis by simp
  next
    case False
    then have "yearDown y d = y" by (subst yearDown.simps) simp
    with False show ?thesis by simp
  qed
qed

lemma yearUp_bracket:
  "dayFromYear y \<le> d \<Longrightarrow>
   dayFromYear (yearUp y d) \<le> d \<and> d < dayFromYear (yearUp y d + 1)"
proof (induction y d rule: yearUp.induct)
  case (1 y d)
  show ?case
  proof (cases "dayFromYear (y + 1) \<le> d")
    case True
    then have "yearUp y d = yearUp (y + 1) d" by (subst yearUp.simps) simp
    with 1 True show ?thesis by simp
  next
    case False
    then have "yearUp y d = y" by (subst yearUp.simps) simp
    with False 1 show ?thesis by simp
  qed
qed

lemma yearFromDay_bracket:
  "dayFromYear (yearFromDay d) \<le> d \<and> d < dayFromYear (yearFromDay d + 1)"
  unfolding yearFromDay_def by (rule yearUp_bracket) (rule yearDown_le)

lemma yearFromDay_unique:
  assumes "dayFromYear y \<le> d" "d < dayFromYear (y + 1)"
  shows "yearFromDay d = y"
proof (rule ccontr)
  assume n: "yearFromDay d \<noteq> y"
  have b: "dayFromYear (yearFromDay d) \<le> d" "d < dayFromYear (yearFromDay d + 1)"
    using yearFromDay_bracket by simp_all
  show False
  proof (cases "yearFromDay d < y")
    case True
    from dayFromYear_strict [OF this] b(2) assms(1) show False by simp
  next
    case False
    with n have "y < yearFromDay d" by simp
    from dayFromYear_strict [OF this] b(1) assms(2) show False by simp
  qed
qed

lemma leapDays_cases: "leapDays y = 0 \<or> leapDays y = 1"
  by (simp add: leapDays_def)

lemma daysInYear_leapDays: "daysInYear y = 365 + leapDays y"
  by (simp add: daysInYear_def leapDays_def)

lemma month_cases:
  "1 \<le> m \<Longrightarrow> m \<le> 12 \<Longrightarrow>
   m = 1 \<or> m = 2 \<or> m = 3 \<or> m = 4 \<or> m = 5 \<or> m = 6 \<or> m = 7 \<or> m = 8 \<or> m = 9 \<or> m = 10 \<or>
   m = 11 \<or> m = (12::int)"
  by arith

lemma civil_within_year:
  assumes "validCivil y m d"
  shows "0 \<le> daysBeforeMonth y m + d - 1" "daysBeforeMonth y m + d - 1 < daysInYear y"
proof -
  from assms have m: "1 \<le> m" "m \<le> 12" and d: "1 \<le> d" "d \<le> daysInMonth y m"
    by (simp_all add: validCivil_def)
  show "0 \<le> daysBeforeMonth y m + d - 1"
    using month_cases [OF m] leapDays_cases [of y] d
    by (elim disjE) (simp_all add: daysBeforeMonth_def)
  show "daysBeforeMonth y m + d - 1 < daysInYear y"
    using month_cases [OF m] leapDays_cases [of y] d
    by (elim disjE) (simp_all add: daysBeforeMonth_def daysInMonth_def daysInYear_leapDays)
qed

lemma year_of_civil:
  assumes "validCivil y m d"
  shows "yearFromDay (daysFromCivil y m d) = y"
proof (rule yearFromDay_unique)
  show "dayFromYear y \<le> daysFromCivil y m d"
    using civil_within_year(1) [OF assms] by (simp add: daysFromCivil_def)
  show "daysFromCivil y m d < dayFromYear (y + 1)"
    using civil_within_year(2) [OF assms] by (simp add: daysFromCivil_def dayFromYear_succ)
qed

lemma month_of_civil:
  assumes "validCivil y m d"
  shows "monthFromDay (daysFromCivil y m d) = m - 1"
proof -
  from assms have m: "1 \<le> m" "m \<le> 12" and d: "1 \<le> d" "d \<le> daysInMonth y m"
    by (simp_all add: validCivil_def)
  have w: "daysFromCivil y m d - dayFromYear y = daysBeforeMonth y m + d - 1"
    by (simp add: daysFromCivil_def)
  show ?thesis
    unfolding monthFromDay_def year_of_civil [OF assms] w Let_def
    using month_cases [OF m] leapDays_cases [of y] d
    by (elim disjE) (simp_all add: daysBeforeMonth_def daysInMonth_def)
qed

lemma date_of_civil:
  assumes "validCivil y m d"
  shows "dateFromDay (daysFromCivil y m d) = d"
proof -
  from assms have m: "1 \<le> m" "m \<le> 12" and d: "1 \<le> d" "d \<le> daysInMonth y m"
    by (simp_all add: validCivil_def)
  have w: "daysFromCivil y m d - dayFromYear y = daysBeforeMonth y m + d - 1"
    by (simp add: daysFromCivil_def)
  show ?thesis
    unfolding dateFromDay_def year_of_civil [OF assms] month_of_civil [OF assms] w Let_def
    using month_cases [OF m] leapDays_cases [of y]
    by (elim disjE) (simp_all add: daysBeforeMonth_def)
qed

lemma civil_case:
  fixes w l m :: int
  assumes l: "l = 0 \<or> l = 1" and ld: "leapDays y = l" and b: "0 \<le> w" "w < 365 + l"
    and mv: "(w < 31 \<and> m = 0) \<or> (31 \<le> w \<and> w < 59 + l \<and> m = 1) \<or>
      (59 + l \<le> w \<and> w < 90 + l \<and> m = 2) \<or> (90 + l \<le> w \<and> w < 120 + l \<and> m = 3) \<or>
      (120 + l \<le> w \<and> w < 151 + l \<and> m = 4) \<or> (151 + l \<le> w \<and> w < 181 + l \<and> m = 5) \<or>
      (181 + l \<le> w \<and> w < 212 + l \<and> m = 6) \<or> (212 + l \<le> w \<and> w < 243 + l \<and> m = 7) \<or>
      (243 + l \<le> w \<and> w < 273 + l \<and> m = 8) \<or> (273 + l \<le> w \<and> w < 304 + l \<and> m = 9) \<or>
      (304 + l \<le> w \<and> w < 334 + l \<and> m = 10) \<or> (334 + l \<le> w \<and> m = 11)"
    and dd: "dd =
     (if m = 0 then w + 1 else if m = 1 then w - 30 else if m = 2 then w - 58 - l
      else if m = 3 then w - 89 - l else if m = 4 then w - 119 - l
      else if m = 5 then w - 150 - l else if m = 6 then w - 180 - l
      else if m = 7 then w - 211 - l else if m = 8 then w - 242 - l
      else if m = 9 then w - 272 - l else if m = 10 then w - 303 - l else w - 333 - l)"
  shows "validCivil y (m + 1) dd \<and> daysBeforeMonth y (m + 1) + dd - 1 = w"
  using mv
proof (elim disjE conjE)
  assume "w < 31" "m = 0"
  with b dd show ?thesis by (simp add: validCivil_def daysBeforeMonth_def daysInMonth_def)
next
  assume "31 \<le> w" "w < 59 + l" "m = 1"
  with b dd ld show ?thesis by (simp add: validCivil_def daysBeforeMonth_def daysInMonth_def)
next
  assume "59 + l \<le> w" "w < 90 + l" "m = 2"
  with b dd ld show ?thesis by (simp add: validCivil_def daysBeforeMonth_def daysInMonth_def)
next
  assume "90 + l \<le> w" "w < 120 + l" "m = 3"
  with b dd ld show ?thesis by (simp add: validCivil_def daysBeforeMonth_def daysInMonth_def)
next
  assume "120 + l \<le> w" "w < 151 + l" "m = 4"
  with b dd ld show ?thesis by (simp add: validCivil_def daysBeforeMonth_def daysInMonth_def)
next
  assume "151 + l \<le> w" "w < 181 + l" "m = 5"
  with b dd ld show ?thesis by (simp add: validCivil_def daysBeforeMonth_def daysInMonth_def)
next
  assume "181 + l \<le> w" "w < 212 + l" "m = 6"
  with b dd ld show ?thesis by (simp add: validCivil_def daysBeforeMonth_def daysInMonth_def)
next
  assume "212 + l \<le> w" "w < 243 + l" "m = 7"
  with b dd ld show ?thesis by (simp add: validCivil_def daysBeforeMonth_def daysInMonth_def)
next
  assume "243 + l \<le> w" "w < 273 + l" "m = 8"
  with b dd ld show ?thesis by (simp add: validCivil_def daysBeforeMonth_def daysInMonth_def)
next
  assume "273 + l \<le> w" "w < 304 + l" "m = 9"
  with b dd ld show ?thesis by (simp add: validCivil_def daysBeforeMonth_def daysInMonth_def)
next
  assume "304 + l \<le> w" "w < 334 + l" "m = 10"
  with b dd ld show ?thesis by (simp add: validCivil_def daysBeforeMonth_def daysInMonth_def)
next
  assume "334 + l \<le> w" "m = 11"
  with b dd ld show ?thesis by (simp add: validCivil_def daysBeforeMonth_def daysInMonth_def)
qed

lemma civil_of_day:
  "validCivil (yearFromDay D) (monthFromDay D + 1) (dateFromDay D) \<and>
   daysFromCivil (yearFromDay D) (monthFromDay D + 1) (dateFromDay D) = D"
proof -
  define y w l where "y = yearFromDay D" and "w = D - dayFromYear y" and "l = leapDays y"
  have b: "0 \<le> w" "w < 365 + l"
    using yearFromDay_bracket [of D]
    by (simp_all add: w_def y_def l_def dayFromYear_succ daysInYear_leapDays)
  have l: "l = 0 \<or> l = 1" using leapDays_cases [of y] by (simp add: l_def)
  have mo: "monthFromDay D =
     (if w < 31 then 0 else if w < 59 + l then 1 else if w < 90 + l then 2
      else if w < 120 + l then 3 else if w < 151 + l then 4 else if w < 181 + l then 5
      else if w < 212 + l then 6 else if w < 243 + l then 7 else if w < 273 + l then 8
      else if w < 304 + l then 9 else if w < 334 + l then 10 else 11)"
    unfolding monthFromDay_def Let_def w_def y_def l_def ..
  define m where "m = monthFromDay D"
  have da: "dateFromDay D =
     (if m = 0 then w + 1 else if m = 1 then w - 30 else if m = 2 then w - 58 - l
      else if m = 3 then w - 89 - l else if m = 4 then w - 119 - l
      else if m = 5 then w - 150 - l else if m = 6 then w - 180 - l
      else if m = 7 then w - 211 - l else if m = 8 then w - 242 - l
      else if m = 9 then w - 272 - l else if m = 10 then w - 303 - l else w - 333 - l)"
    unfolding dateFromDay_def Let_def m_def w_def y_def l_def ..
  have c: "w < 31 \<or> (\<not> w < 31 \<and> w < 59 + l) \<or> (\<not> w < 59 + l \<and> w < 90 + l) \<or>
      (\<not> w < 90 + l \<and> w < 120 + l) \<or> (\<not> w < 120 + l \<and> w < 151 + l) \<or>
      (\<not> w < 151 + l \<and> w < 181 + l) \<or> (\<not> w < 181 + l \<and> w < 212 + l) \<or>
      (\<not> w < 212 + l \<and> w < 243 + l) \<or> (\<not> w < 243 + l \<and> w < 273 + l) \<or>
      (\<not> w < 273 + l \<and> w < 304 + l) \<or> (\<not> w < 304 + l \<and> w < 334 + l) \<or>
      \<not> w < 334 + l"
    by blast
  have mv: "(w < 31 \<and> m = 0) \<or> (31 \<le> w \<and> w < 59 + l \<and> m = 1) \<or>
      (59 + l \<le> w \<and> w < 90 + l \<and> m = 2) \<or> (90 + l \<le> w \<and> w < 120 + l \<and> m = 3) \<or>
      (120 + l \<le> w \<and> w < 151 + l \<and> m = 4) \<or> (151 + l \<le> w \<and> w < 181 + l \<and> m = 5) \<or>
      (181 + l \<le> w \<and> w < 212 + l \<and> m = 6) \<or> (212 + l \<le> w \<and> w < 243 + l \<and> m = 7) \<or>
      (243 + l \<le> w \<and> w < 273 + l \<and> m = 8) \<or> (273 + l \<le> w \<and> w < 304 + l \<and> m = 9) \<or>
      (304 + l \<le> w \<and> w < 334 + l \<and> m = 10) \<or> (334 + l \<le> w \<and> m = 11)"
    using c l unfolding m_def mo by (elim disjE conjE) simp_all
  have "validCivil y (m + 1) (dateFromDay D) \<and>
        daysBeforeMonth y (m + 1) + dateFromDay D - 1 = w"
    using l _ b mv da by (rule civil_case) (simp add: l_def)
  then show ?thesis by (simp add: y_def [symmetric] m_def [symmetric] daysFromCivil_def w_def)
qed

lemma dayFromYear_0: "dayFromYear 0 = - 719528"
  by (simp add: dayFromYear_def)

lemma dayFromYear_10000: "dayFromYear 10000 = 2932897"
  by (simp add: dayFromYear_def)

lemma digit_length: "length (pad4 y) = 4" "length (pad2 m) = 2"
  by (simp_all add: pad4_def pad2_def)

text \<open>
  Claim C9. The date string of today is the calendar date of the current instant moved
  forward by 6 hours, written \<open>YYYY-MM-DD\<close>: for the year, month and day of
  the proleptic Gregorian calendar whose day number is the day of the shifted instant,
  with a year from 0000 to 9999 (the years the four-digit form can write), the result is
  that date formatted; and every instant has such a calendar date. Nothing but the fixed
  offset enters the computation.
\<close>

theorem todayISO_fixed_offset:
  "(validCivil y m d \<and> 0 \<le> y \<and> y \<le> 9999 \<and>
    daysFromCivil y m d = (now + 6 * 60 * 60 * 1000) div msPerDay \<longrightarrow>
      todayISO now = Some (formatDate y m d) \<and> length (formatDate y m d) = 10) \<and>
   (\<exists>y m d. validCivil y m d \<and>
      daysFromCivil y m d = (now + 6 * 60 * 60 * 1000) div msPerDay)"
proof (intro conjI impI)
  show "\<exists>y m d. validCivil y m d \<and>
      daysFromCivil y m d = (now + 6 * 60 * 60 * 1000) div msPerDay"
    using civil_of_day [of "(now + 6 * 60 * 60 * 1000) div msPerDay"] by blast
next
  assume a: "validCivil y m d \<and> 0 \<le> y \<and> y \<le> 9999 \<and>
    daysFromCivil y m d = (now + 6 * 60 * 60 * 1000) div msPerDay"
  show "length (formatDate y m d) = 10"
    by (simp add: formatDate_def digit_length)
  define t where "t = now + 6 * 60 * 60 * 1000"
  define D where "D = t div msPerDay"
  from a have v: "validCivil y m d" and y: "0 \<le> y" "y \<le> 9999"
    and D: "daysFromCivil y m d = D" by (simp_all add: D_def t_def)
  have lo: "dayFromYear 0 \<le> D"
    using dayFromYear_mono [OF y(1)] civil_within_year(1) [OF v] D
    by (simp add: daysFromCivil_def)
  have "D < dayFromYear (y + 1)"
    using civil_within_year(2) [OF v] D by (simp add: daysFromCivil_def dayFromYear_succ)
  moreover have "dayFromYear (y + 1) \<le> dayFromYear 10000"
    using y(2) by (intro dayFromYear_mono) simp
  ultimately have hi: "D < dayFromYear 10000" by simp
  have t: "t = msPerDay * D + t mod msPerDay" by (simp add: D_def)
  have r: "0 \<le> t mod msPerDay" "t mod msPerDay < msPerDay" by (simp_all add: msPerDay_def)
  have range: "\<not> 8640000000000000 < \<bar>t\<bar>"
    using lo hi t r unfolding dayFromYear_0 dayFromYear_10000 msPerDay_def by linarith
  have iso: "toISOString t =
      Some (pad4 y @ [45] @ pad2 m @ [45] @ pad2 d @ [84] @ pad2 (t mod msPerDay div 3600000) @
            [58] @ pad2 (t mod msPerDay div 60000 mod 60) @ [58] @
            pad2 (t mod msPerDay div 1000 mod 60) @ [46] @ pad3 (t mod msPerDay mod 1000) @ [90])"
    using range y year_of_civil [OF v] month_of_civil [OF v] date_of_civil [OF v]
    by (simp add: toISOString_def Let_def D_def [symmetric] D isoYear_def)
  show "todayISO now = Some (formatDate y m d)"
    unfolding todayISO_def t_def [symmetric] iso
    by (simp add: formatDate_def digit_length)
qed

theorem todayISO_fixed_offset_witness:
  "validCivil 2023 11 15 \<and> (0::int) \<le> 2023 \<and> (2023::int) \<le> 9999 \<and>
   daysFromCivil 2023 11 15 = (1700000000000 + 6 * 60 * 60 * 1000) div msPerDay \<and>
   todayISO 1700000000000 = Some (ascii ''2023-11-15'') \<and>
   validCivil 2024 2 29 \<and>
   daysFromCivil 2024 2 29 = (1709229599999 + 6 * 60 * 60 * 1000) div msPerDay \<and>
   todayISO 1709229599999 = Some (ascii ''2024-02-29'') \<and>
   validCivil 2024 3 1 \<and>
   daysFromCivil 2024 3 1 = (1709229600000 + 6 * 60 * 60 * 1000) div msPerDay \<and>
   todayISO 1709229600000 = Some (ascii ''2024-03-01'')"
proof -
  have v: "validCivil 2023 11 15" "validCivil 2024 2 29" "validCivil 2024 3 1"
    by (simp_all add: validCivil_def daysInMonth_def leapDays_def inLeapYear_def)
  have d: "daysFromCivil 2023 11 15 = (1700000000000 + 6 * 60 * 60 * 1000) div msPerDay"
    "daysFromCivil 2024 2 29 = (1709229599999 + 6 * 60 * 60 * 1000) div msPerDay"
    "daysFromCivil 2024 3 1 = (1709229600000 + 6 * 60 * 60 * 1000) div msPerDay"
    by (simp_all add: daysFromCivil_def dayFromYear_def daysBeforeMonth_def leapDays_def
        inLeapYear_def msPerDay_def)
  have f: "formatDate 2023 11 15 = ascii ''2023-11-15''"
    "formatDate 2024 2 29 = ascii ''2024-02-29''"
    "formatDate 2024 3 1 = ascii ''2024-03-01''"
    by (simp_all add: formatDate_def pad4_def pad2_def digit_def ascii_def)
  show ?thesis
    using todayISO_fixed_offset [of 2023 11 15 1700000000000]
      todayISO_fixed_offset [of 2024 2 29 1709229599999]
      todayISO_fixed_offset [of 2024 3 1 1709229600000] v d f
    by simp
qed

section \<open>Matches of the heading pattern\<close>

text \<open>
  What the backtracking matcher accepts for the pieces of a heading, and which match
  \<open>match\<close> returns: the one at the leftmost position.
\<close>

lemma tryCounts_Some:
  "tryCounts f lo n = Some r \<Longrightarrow> \<exists>k. lo \<le> k \<and> k \<le> n \<and> f k = Some r"
proof (induction n)
  case 0
  then show ?case by (auto split: if_splits)
next
  case (Suc n)
  show ?case
  proof (cases "Suc n < lo")
    case True
    with Suc.prems show ?thesis by simp
  next
    case False
    show ?thesis
    proof (cases "f (Suc n)")
      case None
      with False Suc.prems have "tryCounts f lo n = Some r" by simp
      from Suc.IH [OF this] show ?thesis by (meson le_Suc_eq)
    next
      case (Some a)
      with False Suc.prems have "a = r" by simp
      with Some False show ?thesis by (intro exI [of _ "Suc n"]) auto
    qed
  qed
qed

lemma tryCounts_complete:
  "lo \<le> k \<Longrightarrow> k \<le> n \<Longrightarrow> f k \<noteq> None \<Longrightarrow> tryCounts f lo n \<noteq> None"
proof (induction n)
  case 0
  then show ?case by simp
next
  case (Suc n)
  show ?case
  proof (cases "k = Suc n")
    case True
    with Suc.prems show ?thesis by (auto split: option.splits)
  next
    case False
    with Suc.prems have "k \<le> n" by simp
    from Suc.IH [OF Suc.prems(1) this Suc.prems(3)] Suc.prems(1) \<open>k \<le> n\<close>
    show ?thesis by (auto split: option.splits)
  qed
qed

lemma matchPieces_literal:
  "matchPieces ml (map (\<lambda>c. One (Chr c)) L @ ps) prev s =
     (if take (length L) s = L
      then map_option (\<lambda>r. length L + r)
             (matchPieces ml ps (prevAfter prev s (length L)) (drop (length L) s))
      else None)"
proof -
  have m: "map (\<lambda>c. One (Chr c)) L = map One (map Chr L)" by simp
  have c: "(length (map Chr L) \<le> length s \<and>
            (\<forall>i<length (map Chr L). atomMatches (map Chr L ! i) (s ! i))) =
           (take (length L) s = L)"
    by (auto simp: atomMatches_def list_eq_iff_nth_eq)
  show ?thesis
    unfolding m matchPieces_Ones c by simp
qed

lemma takeWhile_run: "k \<le> length (takeWhile P s) \<Longrightarrow> \<forall>c\<in>set (take k s). P c"
proof (induction s arbitrary: k)
  case Nil
  then show ?case by simp
next
  case (Cons a s)
  then show ?case by (cases k) (auto split: if_splits)
qed

lemma matchPieces_Star_Eol:
  "matchPieces ml [Star a, AssertEol] prev s = Some r \<Longrightarrow>
   r \<le> length (takeWhile (atomMatches a) s) \<and> atEol ml (drop r s)"
proof -
  assume "matchPieces ml [Star a, AssertEol] prev s = Some r"
  then have "tryCounts (\<lambda>k. map_option (\<lambda>r. k + r)
      (if atEol ml (drop k s) then Some 0 else None)) 0 (length (takeWhile (atomMatches a) s)) =
      Some r" by (simp cong: if_cong)
  from tryCounts_Some [OF this] obtain k where
    k: "k \<le> length (takeWhile (atomMatches a) s)"
    "map_option (\<lambda>r. k + r) (if atEol ml (drop k s) then Some 0 else None) = Some r"
    by blast
  then show ?thesis by (auto split: if_splits)
qed

lemma matchPieces_Star_Eol_complete:
  "j \<le> length (takeWhile (atomMatches a) s) \<Longrightarrow> atEol ml (drop j s) \<Longrightarrow>
   matchPieces ml [Star a, AssertEol] prev s \<noteq> None"
proof -
  assume j: "j \<le> length (takeWhile (atomMatches a) s)" and e: "atEol ml (drop j s)"
  have "tryCounts (\<lambda>k. map_option (\<lambda>r. k + r)
      (if atEol ml (drop k s) then Some 0 else None)) 0 (length (takeWhile (atomMatches a) s)) \<noteq>
      None"
    using j e by (intro tryCounts_complete [of 0 j]) simp_all
  then show ?thesis by (simp cong: if_cong)
qed

lemma heading_match_sound:
  assumes "matchPieces True (headingPieces L) prev s = Some len"
  shows "atBol True prev \<and> headingForm L s len"
proof -
  define tailp where "tailp = map (\<lambda>c. One (Chr c)) L @ [Star ClassS, AssertEol]"
  have hp: "headingPieces L = AssertBol # One (Chr 35) # One (Chr 35) # Plus ClassS # tailp"
    by (simp add: headingPieces_def tailp_def)
  from assms have bol: "atBol True prev"
    unfolding hp by (simp split: if_splits)
  from assms bol obtain s2 len2 where s: "s = 35 # 35 # s2"
    and p: "matchPieces True (Plus ClassS # tailp) (Some 35) s2 = Some len2"
    and len: "len = Suc (Suc len2)"
    unfolding hp by (auto simp: atomMatches_def split: list.splits if_splits)
  define n where "n = length (takeWhile isSpace s2)"
  from p have "tryCounts (\<lambda>k. map_option (\<lambda>r. k + r)
      (matchPieces True tailp (prevAfter (Some 35) s2 k) (drop k s2))) 1 n = Some len2"
    by (simp add: n_def atomMatches_def [abs_def])
  from tryCounts_Some [OF this] obtain k r1 where k: "1 \<le> k" "k \<le> n"
    and t: "matchPieces True tailp (prevAfter (Some 35) s2 k) (drop k s2) = Some r1"
    and len2: "len2 = k + r1" by auto
  from t obtain r2 where l: "take (length L) (drop k s2) = L"
    and st: "matchPieces True [Star ClassS, AssertEol]
        (prevAfter (prevAfter (Some 35) s2 k) (drop k s2) (length L))
        (drop (length L) (drop k s2)) = Some r2"
    and r1: "r1 = length L + r2"
    unfolding tailp_def matchPieces_literal by (auto split: if_splits)
  define s3 where "s3 = drop (length L) (drop k s2)"
  from matchPieces_Star_Eol [OF st]
  have j: "r2 \<le> length (takeWhile isSpace s3)" and eol: "atEol True (drop r2 s3)"
    by (simp_all add: s3_def atomMatches_def [abs_def])
  have w1: "\<forall>c\<in>set (take k s2). isSpace c"
    using k(2) by (intro takeWhile_run) (simp add: n_def)
  have w2: "\<forall>c\<in>set (take r2 s3). isSpace c"
    using j by (intro takeWhile_run)
  have kl: "k \<le> length s2"
    using k(2) length_takeWhile_le [of isSpace s2] by (simp add: n_def)
  have jl: "r2 \<le> length s3"
    using j length_takeWhile_le [of isSpace s3] by simp
  have d1: "drop k s2 = L @ s3"
    using l by (metis append_take_drop_id s3_def)
  have "s2 = take k s2 @ L @ take r2 s3 @ drop r2 s3"
    using d1 by (metis append_take_drop_id)
  then have "s = [35, 35] @ take k s2 @ L @ take r2 s3 @ drop r2 s3"
    using s by simp
  moreover have "take k s2 \<noteq> []" using k(1) kl by auto
  moreover have "len = 2 + length (take k s2) + length L + length (take r2 s3)"
    using len len2 r1 kl jl by simp
  ultimately have "headingForm L s len"
    unfolding headingForm_def using w1 w2 eol by blast
  with bol show ?thesis by simp
qed

lemma takeWhile_covers: "\<forall>c\<in>set W. P c \<Longrightarrow> length W \<le> length (takeWhile P (W @ x))"
  by (simp add: takeWhile_append2)

lemma atomMatches_ClassS: "atomMatches ClassS = isSpace"
  by (rule ext) (simp add: atomMatches_def)

lemma heading_match_complete:
  assumes "atBol True prev" and "headingForm L s len"
  shows "matchPieces True (headingPieces L) prev s \<noteq> None"
proof -
  from assms(2) obtain W1 W2 r where s: "s = [35, 35] @ W1 @ L @ W2 @ r" and n: "W1 \<noteq> []"
    and w1: "\<forall>c\<in>set W1. isSpace c" and w2: "\<forall>c\<in>set W2. isSpace c" and e: "atEol True r"
    unfolding headingForm_def by blast
  define tailp where "tailp = map (\<lambda>c. One (Chr c)) L @ [Star ClassS, AssertEol]"
  define s2 where "s2 = W1 @ L @ W2 @ r"
  have hp: "headingPieces L = AssertBol # One (Chr 35) # One (Chr 35) # Plus ClassS # tailp"
    by (simp add: headingPieces_def tailp_def)
  have st: "matchPieces True [Star ClassS, AssertEol] p (W2 @ r) \<noteq> None" for p
    using takeWhile_covers [OF w2, of r] e
    by (intro matchPieces_Star_Eol_complete [of "length W2"]) (simp_all add: atomMatches_ClassS)
  have t: "matchPieces True tailp p (L @ W2 @ r) \<noteq> None" for p
    unfolding tailp_def matchPieces_literal using st by simp
  have "tryCounts (\<lambda>k. map_option (\<lambda>r. k + r)
      (matchPieces True tailp (prevAfter (Some 35) s2 k) (drop k s2))) 1
      (length (takeWhile isSpace s2)) \<noteq> None"
  proof (rule tryCounts_complete [of 1 "length W1"])
    show "1 \<le> length W1" using n by (cases W1) auto
    show "length W1 \<le> length (takeWhile isSpace s2)"
      unfolding s2_def by (rule takeWhile_covers [OF w1])
    show "map_option (\<lambda>r. length W1 + r)
      (matchPieces True tailp (prevAfter (Some 35) s2 (length W1)) (drop (length W1) s2)) \<noteq> None"
      using t by (simp add: s2_def)
  qed
  then have "matchPieces True (Plus ClassS # tailp) (Some 35) s2 \<noteq> None"
    by (simp add: atomMatches_ClassS)
  then show ?thesis
    unfolding hp using assms(1) s by (simp add: atomMatches_def s2_def)
qed

lemma prevOf_Cons: "prevOf prev (c # a) = prevOf (Some c) a"
  by (simp add: prevOf_def)

lemma execFrom_None:
  "execFrom ml ps prev s idx = None \<Longrightarrow> s = a @ b \<Longrightarrow>
   matchPieces ml ps (prevOf prev a) b = None"
proof (induction s arbitrary: prev idx a)
  case Nil
  then show ?case by (simp add: prevOf_def split: option.splits)
next
  case (Cons c cs)
  from Cons.prems(1) have m: "matchPieces ml ps prev (c # cs) = None"
    and r: "execFrom ml ps (Some c) cs (Suc idx) = None"
    by (simp_all split: option.splits)
  show ?case
  proof (cases a)
    case Nil
    with Cons.prems(2) m show ?thesis by (simp add: prevOf_def)
  next
    case (Cons x a')
    with Cons.prems(2) have "x = c" "cs = a' @ b" by simp_all
    with Cons.IH [OF r, of a'] Cons show ?thesis by (simp add: prevOf_Cons)
  qed
qed

lemma execFrom_Some:
  "execFrom ml ps prev s idx = Some (i, len) \<Longrightarrow>
   \<exists>a b. s = a @ b \<and> i = idx + length a \<and> matchPieces ml ps (prevOf prev a) b = Some len \<and>
     (\<forall>a' b'. s = a' @ b' \<and> length a' < length a \<longrightarrow>
        matchPieces ml ps (prevOf prev a') b' = None)"
proof (induction s arbitrary: prev idx)
  case Nil
  then have "matchPieces ml ps prev [] = Some len" "i = idx"
    by (simp_all split: option.splits)
  then show ?case by (intro exI [of _ "[]"]) (simp add: prevOf_def)
next
  case (Cons c cs)
  show ?case
  proof (cases "matchPieces ml ps prev (c # cs)")
    case (Some l)
    with Cons.prems have "i = idx" "l = len" by simp_all
    with Some have "c # cs = [] @ (c # cs) \<and> i = idx + length ([]::jsstring) \<and>
        matchPieces ml ps (prevOf prev []) (c # cs) = Some len \<and>
        (\<forall>a' b'. c # cs = a' @ b' \<and> length a' < length ([]::jsstring) \<longrightarrow>
          matchPieces ml ps (prevOf prev a') b' = None)"
      by (simp add: prevOf_def)
    then show ?thesis by blast
  next
    case None
    with Cons.prems have "execFrom ml ps (Some c) cs (Suc idx) = Some (i, len)" by simp
    from Cons.IH [OF this] obtain a b where ab: "cs = a @ b" "i = Suc idx + length a"
      "matchPieces ml ps (prevOf (Some c) a) b = Some len"
      and first: "\<forall>a' b'. cs = a' @ b' \<and> length a' < length a \<longrightarrow>
        matchPieces ml ps (prevOf (Some c) a') b' = None" by blast
    have "\<forall>a' b'. c # cs = a' @ b' \<and> length a' < length (c # a) \<longrightarrow>
        matchPieces ml ps (prevOf prev a') b' = None"
    proof (intro allI impI)
      fix a' b'
      assume h: "c # cs = a' @ b' \<and> length a' < length (c # a)"
      show "matchPieces ml ps (prevOf prev a') b' = None"
      proof (cases a')
        case Nil
        with h None show ?thesis by (simp add: prevOf_def)
      next
        case (Cons x a'')
        with h have "x = c" "cs = a'' @ b'" "length a'' < length a" by simp_all
        with first Cons show ?thesis by (simp add: prevOf_Cons)
      qed
    qed
    with ab have "c # cs = (c # a) @ b \<and> i = idx + length (c # a) \<and>
        matchPieces ml ps (prevOf prev (c # a)) b = Some len \<and>
        (\<forall>a' b'. c # cs = a' @ b' \<and> length a' < length (c # a) \<longrightarrow>
          matchPieces ml ps (prevOf prev a') b' = None)"
      by (simp add: prevOf_Cons)
    then show ?thesis by blast
  qed
qed

lemma execFrom_first:
  assumes "s = a @ b" and "matchPieces ml ps (prevOf prev a) b = Some len"
    and "\<forall>a' b'. s = a' @ b' \<and> length a' < length a \<longrightarrow>
           matchPieces ml ps (prevOf prev a') b' = None"
  shows "execFrom ml ps prev s idx = Some (idx + length a, len)"
proof (cases "execFrom ml ps prev s idx")
  case None
  from execFrom_None [OF this assms(1)] assms(2) show ?thesis by simp
next
  case (Some r)
  obtain i l where r: "r = (i, l)" by (cases r)
  from execFrom_Some [OF Some [unfolded r]] obtain a2 b2 where
    ab: "s = a2 @ b2" "i = idx + length a2" "matchPieces ml ps (prevOf prev a2) b2 = Some l"
    and first: "\<forall>a' b'. s = a' @ b' \<and> length a' < length a2 \<longrightarrow>
        matchPieces ml ps (prevOf prev a') b' = None" by blast
  have "\<not> length a < length a2" using first assms(1,2) by auto
  moreover have "\<not> length a2 < length a" using assms(3) ab(1,3) by auto
  ultimately have "length a2 = length a" by simp
  with ab(1) assms(1) have "a2 = a" "b2 = b" by (auto simp: append_eq_append_conv)
  with ab assms(2) Some r show ?thesis by simp
qed

section \<open>The text up to the next heading\<close>

lemma tryCounts_total: "(tryCounts (\<lambda>k. Some (g k)) lo n \<noteq> None) = (lo \<le> n)"
  by (induction n) auto

lemma takeWhile_pos: "(1 \<le> length (takeWhile P s)) = (\<exists>c cs. s = c # cs \<and> P c)"
  by (cases s) auto

lemma nextHeading_match:
  "(matchPieces True nextHeadingRe prev s \<noteq> None) = (atBol True prev \<and> startsNextHeading s)"
proof -
  have p: "(matchPieces True [Plus ClassS] q t \<noteq> None) = (\<exists>c cs. t = c # cs \<and> isSpace c)" for q t
    using tryCounts_total [of "\<lambda>k. k + 0" 1 "length (takeWhile isSpace t)"]
      takeWhile_pos [of isSpace t]
    by (simp add: atomMatches_ClassS)
  show ?thesis
  proof (cases s)
    case Nil
    then show ?thesis by (simp add: nextHeadingRe_def startsNextHeading_def)
  next
    case s1: (Cons a t1)
    show ?thesis
    proof (cases t1)
      case Nil
      with s1 show ?thesis by (simp add: nextHeadingRe_def startsNextHeading_def)
    next
      case (Cons b t2)
      have "(matchPieces True nextHeadingRe prev (a # b # t2) \<noteq> None) =
          (atBol True prev \<and> a = 35 \<and> b = 35 \<and> matchPieces True [Plus ClassS] (Some b) t2 \<noteq> None)"
        by (simp add: nextHeadingRe_def atomMatches_def del: matchPieces.simps
              add: matchPieces.simps(2) [of _ AssertBol] matchPieces.simps(2) [of _ "One _"])
      with s1 Cons show ?thesis
        unfolding p by (cases t2) (auto simp: startsNextHeading_def)
    qed
  qed
qed

lemma execFrom_idx: "execFrom ml ps prev s idx = Some (n, l) \<Longrightarrow> idx \<le> n"
  using execFrom_Some by fastforce

lemma search_untilNextHeading:
  "(case execFrom True nextHeadingRe prev s idx of None \<Rightarrow> s | Some (n, l) \<Rightarrow> take (n - idx) s) =
     untilNextHeading (atBol True prev) s"
proof (induction s arbitrary: prev idx)
  case Nil
  then show ?case by (simp split: option.splits)
next
  case (Cons c cs)
  show ?case
  proof (cases "matchPieces True nextHeadingRe prev (c # cs)")
    case None
    then have n: "\<not> (atBol True prev \<and> startsNextHeading (c # cs))"
      using nextHeading_match [of prev "c # cs"] by simp
    have b: "atBol True (Some c) = isLineTerminator c" by (simp add: atBol_def)
    show ?thesis
    proof (cases "execFrom True nextHeadingRe (Some c) cs (Suc idx)")
      case None
      with Cons.IH [where prev = "Some c" and idx = "Suc idx"] \<open>matchPieces True nextHeadingRe prev (c # cs) = None\<close> n b
      show ?thesis by simp
    next
      case (Some r)
      obtain i l where r: "r = (i, l)" by (cases r)
      from execFrom_idx [OF Some [unfolded r]] have "Suc idx \<le> i" .
      then have "i - idx = Suc (i - Suc idx)" by simp
      then have "take (i - idx) (c # cs) = c # take (i - Suc idx) cs"
        by (simp only: take_Suc_Cons)
      with Cons.IH [where prev = "Some c" and idx = "Suc idx"] Some r
        \<open>matchPieces True nextHeadingRe prev (c # cs) = None\<close> n b
      show ?thesis by simp
    qed
  next
    case (Some l)
    then have "atBol True prev \<and> startsNextHeading (c # cs)"
      using nextHeading_match [of prev "c # cs"] by simp
    with Some show ?thesis by simp
  qed
qed

lemma search_rest:
  "(case regExpSearch True nextHeadingRe rest of None \<Rightarrow> rest | Some next \<Rightarrow> take next rest) =
     untilNextHeading True rest"
  using search_untilNextHeading [where prev = None and s = rest and idx = 0]
  by (auto simp: regExpSearch_def regExpExec_def atBol_def split: option.splits)

lemma trim_leading: "\<forall>c\<in>set w. isSpace c \<Longrightarrow> trim (w @ x) = trim x"
  by (simp add: trim_def dropWhile_append2)

lemma isSpace_not_hash: "isSpace c \<Longrightarrow> c \<noteq> 35"
  by (auto simp: isSpace_def isWhiteSpace_def isLineTerminator_def)

lemma untilNextHeading_space:
  "\<forall>c\<in>set w. isSpace c \<Longrightarrow>
   untilNextHeading b (w @ x) =
     w @ untilNextHeading (if w = [] then b else isLineTerminator (last w)) x"
proof (induction w arbitrary: b)
  case Nil
  then show ?case by simp
next
  case (Cons c w)
  then have "\<not> startsNextHeading (c # w @ x)"
    using isSpace_not_hash [of c] by (auto simp: startsNextHeading_def split: list.splits)
  with Cons show ?case by simp
qed

lemma untilNextHeading_after_eol:
  "atEol True x \<Longrightarrow> untilNextHeading b x = untilNextHeading True x"
proof (cases x)
  case Nil
  then show ?thesis by simp
next
  case (Cons c cs)
  assume "atEol True x"
  with Cons have "isLineTerminator c" by (simp add: atEol_def)
  then have "\<not> startsNextHeading (c # cs)"
    by (auto simp: startsNextHeading_def isLineTerminator_def split: list.splits)
  with Cons show ?thesis by simp
qed

section \<open>Heading lines\<close>

lemma inline_space: "isSpace c \<Longrightarrow> \<not> isLineTerminator c \<Longrightarrow> isWhiteSpace c"
  by (simp add: isSpace_def)

lemma hash_not_eol: "\<not> isLineTerminator 35"
  by (simp add: isLineTerminator_def)

lemma firstLine_all: "\<forall>c\<in>set a. \<not> isLineTerminator c \<Longrightarrow> firstLine (a @ b) = a @ firstLine b"
  by (simp add: firstLine_def takeWhile_append2)

lemma firstLine_stop: "\<exists>c\<in>set a. isLineTerminator c \<Longrightarrow> firstLine (a @ b) = firstLine a"
  by (auto simp: firstLine_def takeWhile_append1)

lemma firstLine_eol: "atEol True r \<Longrightarrow> firstLine r = []"
  by (cases r) (simp_all add: firstLine_def atEol_def)

lemma firstLine_inline: "c \<in> set (firstLine s) \<Longrightarrow> \<not> isLineTerminator c"
  unfolding firstLine_def by (auto dest: set_takeWhileD)

lemma firstLine_subset: "set (firstLine s) \<subseteq> set s"
  unfolding firstLine_def by (auto dest: set_takeWhileD)

lemma firstLine_spaces:
  assumes "\<forall>c\<in>set W. isSpace c"
  shows "\<forall>c\<in>set (firstLine W). isWhiteSpace c"
  using assms firstLine_inline [of _ W] firstLine_subset [of W] inline_space by blast

lemma firstLine_spaces_eol:
  assumes "\<forall>c\<in>set W. isSpace c" and "atEol True r"
  shows "\<forall>c\<in>set (firstLine (W @ r)). isWhiteSpace c"
proof (cases "\<exists>c\<in>set W. isLineTerminator c")
  case True
  then show ?thesis using firstLine_stop [OF True, of r] firstLine_spaces [OF assms(1)] by simp
next
  case False
  then have "firstLine (W @ r) = W" using firstLine_all [of W r] firstLine_eol [OF assms(2)] by simp
  with False assms(1) show ?thesis using inline_space by auto
qed

lemma match_is_heading_or_bare:
  assumes "headingForm L b len" and "\<forall>c\<in>set L. \<not> isLineTerminator c"
  shows "isHeadingLine L (firstLine b) \<or> isBareMarker (firstLine b)"
proof -
  from assms(1) obtain W1 W2 r where b: "b = [35, 35] @ W1 @ L @ W2 @ r" and n: "W1 \<noteq> []"
    and w1: "\<forall>c\<in>set W1. isSpace c" and w2: "\<forall>c\<in>set W2. isSpace c" and e: "atEol True r"
    unfolding headingForm_def by blast
  have h: "firstLine b = [35, 35] @ firstLine (W1 @ L @ W2 @ r)"
    unfolding b by (rule firstLine_all) (simp add: hash_not_eol)
  show ?thesis
  proof (cases "\<exists>c\<in>set W1. isLineTerminator c")
    case True
    then have "firstLine b = [35, 35] @ firstLine W1"
      using h firstLine_stop [OF True] by simp
    then have "isBareMarker (firstLine b)"
      unfolding isBareMarker_def list_all_iff using firstLine_spaces [OF w1] by blast
    then show ?thesis ..
  next
    case False
    then have "firstLine (W1 @ L @ W2 @ r) = W1 @ L @ firstLine (W2 @ r)"
      using firstLine_all [of W1 "L @ W2 @ r"] firstLine_all [OF assms(2), of "W2 @ r"] by simp
    with h have "firstLine b = [35, 35] @ W1 @ L @ firstLine (W2 @ r)" by simp
    moreover have "\<forall>c\<in>set W1. isWhiteSpace c" using False w1 inline_space by blast
    ultimately have "isHeadingLine L (firstLine b)"
      unfolding isHeadingLine_def list_all_iff using n firstLine_spaces_eol [OF w2 e] by blast
    then show ?thesis ..
  qed
qed

lemma no_match_before:
  assumes "\<forall>c\<in>set L. \<not> isLineTerminator c"
    and "(a = [] \<or> isLineTerminator (last a)) \<longrightarrow>
           \<not> isHeadingLine L (firstLine b) \<and> \<not> isBareMarker (firstLine b)"
  shows "matchPieces True (headingPieces L) (prevOf None a) b = None"
proof (rule ccontr)
  assume "matchPieces True (headingPieces L) (prevOf None a) b \<noteq> None"
  then obtain l where "matchPieces True (headingPieces L) (prevOf None a) b = Some l" by auto
  from heading_match_sound [OF this] have bol: "atBol True (prevOf None a)"
    and hf: "headingForm L b l" by simp_all
  from bol have "a = [] \<or> isLineTerminator (last a)"
    by (auto simp: atBol_def prevOf_def split: if_splits)
  with assms(2) match_is_heading_or_bare [OF hf assms(1)] show False by blast
qed

text \<open>
  Where the code and the specification agree on an absent heading: for a label without
  line terminators, a document in which no line is a heading line of the label and no
  line is a bare marker line has an empty section.
\<close>

lemma extractSection_no_heading_line:
  assumes "\<forall>c\<in>set L. \<not> isLineTerminator c"
    and "\<forall>a b. doc = a @ b \<and> (a = [] \<or> isLineTerminator (last a)) \<longrightarrow>
           \<not> isHeadingLine L (firstLine b) \<and> \<not> isBareMarker (firstLine b)"
  shows "extractSection doc L = Some []"
proof -
  have "regExpExec True (headingPieces L) doc = None"
  proof (rule ccontr)
    assume "regExpExec True (headingPieces L) doc \<noteq> None"
    then obtain i len where "execFrom True (headingPieces L) None doc 0 = Some (i, len)"
      by (auto simp: regExpExec_def)
    from execFrom_Some [OF this] obtain a b where ab: "doc = a @ b"
      and m: "matchPieces True (headingPieces L) (prevOf None a) b = Some len" by blast
    from assms(2) ab have "(a = [] \<or> isLineTerminator (last a)) \<longrightarrow>
           \<not> isHeadingLine L (firstLine b) \<and> \<not> isBareMarker (firstLine b)" by blast
    from no_match_before [OF assms(1) this] m show False by simp
  qed
  then show ?thesis by (simp add: extractSection_def parse_headingSource)
qed

lemma isWhiteSpace_isSpace: "isWhiteSpace c \<Longrightarrow> isSpace c"
  by (simp add: isSpace_def)

lemma whiteSpace_inline: "isWhiteSpace c \<Longrightarrow> \<not> isLineTerminator c"
  by (auto simp: isWhiteSpace_def isLineTerminator_def)

lemma heading_line_form:
  assumes "isHeadingLine L ln" and "atEol True post"
  shows "headingForm L (ln @ post) (length ln)"
proof -
  from assms(1) obtain w1 w2 where "ln = [35, 35] @ w1 @ L @ w2" "w1 \<noteq> []"
    "\<forall>c\<in>set w1. isWhiteSpace c" "\<forall>c\<in>set w2. isWhiteSpace c"
    unfolding isHeadingLine_def list_all_iff by blast
  then show ?thesis
    unfolding headingForm_def using assms(2) isWhiteSpace_isSpace
    by (intro exI [of _ w1] exI [of _ w2] exI [of _ post]) auto
qed

text \<open>What a match that starts at a heading line takes beyond the line is whitespace.\<close>

lemma match_overrun_is_space:
  assumes ln: "ln = [35, 35] @ w1 @ L @ w2"
    and w1: "\<forall>c\<in>set w1. isWhiteSpace c" and w2: "\<forall>c\<in>set w2. isWhiteSpace c"
    and inl: "\<forall>c\<in>set L. \<not> isLineTerminator c"
    and M: "[35, 35] @ W1 @ L @ W2 = ln @ w"
    and W1: "\<forall>c\<in>set W1. isSpace c" and W2: "\<forall>c\<in>set W2. isSpace c"
    and w: "w = [] \<or> isLineTerminator (hd w)"
  shows "\<forall>c\<in>set w. isSpace c"
proof (cases w)
  case Nil
  then show ?thesis by simp
next
  case (Cons c0 w')
  with w have c0: "isLineTerminator c0" by simp
  define T where "T = W1 @ L @ W2"
  define p0 where "p0 = length w1 + length L + length w2"
  have T: "T = (w1 @ L @ w2) @ c0 # w'" using M ln Cons by (simp add: T_def)
  have Tp: "T ! p0 = c0" unfolding T p0_def by (metis length_append nth_append_length append.assoc)
  have wd: "w = drop p0 T" unfolding T p0_def Cons by simp
  show ?thesis
  proof (cases "length W1 + length L \<le> p0")
    case True
    have "drop p0 T = drop (p0 - length (W1 @ L)) W2"
      using True unfolding T_def by (simp add: drop_append del: append_assoc add: append_assoc [symmetric])
    then have "set w \<subseteq> set W2" unfolding wd by (metis set_drop_subset)
    with W2 show ?thesis by blast
  next
    case False
    have "p0 < length W1"
    proof (rule ccontr)
      assume "\<not> p0 < length W1"
      with False have "length W1 \<le> p0" "p0 - length W1 < length L" by simp_all
      then have "T ! p0 = L ! (p0 - length W1)"
        unfolding T_def by (simp add: nth_append)
      with Tp c0 inl \<open>p0 - length W1 < length L\<close> show False by (metis nth_mem)
    qed
    then have "take (Suc p0) T = take (Suc p0) W1" unfolding T_def by simp
    moreover have "take (Suc p0) T = w1 @ L @ w2 @ [c0]"
      unfolding T p0_def by simp
    ultimately have "set L \<subseteq> set W1" by (metis Un_iff set_append set_take_subset subsetI subset_trans)
    with W1 have "\<forall>c\<in>set L. isSpace c" by blast
    with W1 W2 have "\<forall>c\<in>set T. isSpace c" by (auto simp: T_def)
    then show ?thesis unfolding wd by (meson in_set_dropD)
  qed
qed

text \<open>
  Where the code and the specification agree on a present heading: when the first heading
  line of the label is not preceded by a bare marker line, the section is the text from
  the end of that line up to the next heading, trimmed.
\<close>

lemma extractSection_first_heading_line:
  assumes doc: "doc = pre @ ln @ post"
    and start: "pre = [] \<or> isLineTerminator (last pre)"
    and inline: "\<forall>c\<in>set ln. \<not> isLineTerminator c"
    and eol: "atEol True post"
    and heading: "isHeadingLine L ln"
    and first: "\<forall>a b. doc = a @ b \<and> length a < length pre \<and> (a = [] \<or> isLineTerminator (last a)) \<longrightarrow>
                 \<not> isHeadingLine L (firstLine b) \<and> \<not> isBareMarker (firstLine b)"
  shows "extractSection doc L = Some (trim (untilNextHeading False post))"
proof -
  from heading obtain w1 w2 where ln: "ln = [35, 35] @ w1 @ L @ w2" and w1n: "w1 \<noteq> []"
    and w1: "\<forall>c\<in>set w1. isWhiteSpace c" and w2: "\<forall>c\<in>set w2. isWhiteSpace c"
    unfolding isHeadingLine_def list_all_iff by blast
  have inl: "\<forall>c\<in>set L. \<not> isLineTerminator c" using inline ln by simp
  have bol: "atBol True (prevOf None pre)"
    using start by (auto simp: atBol_def prevOf_def)
  from heading_match_complete [OF bol heading_line_form [OF heading eol]]
  obtain len where m: "matchPieces True (headingPieces L) (prevOf None pre) (ln @ post) = Some len"
    by auto
  have none: "\<forall>a b. doc = a @ b \<and> length a < length pre \<longrightarrow>
      matchPieces True (headingPieces L) (prevOf None a) b = None"
  proof (intro allI impI)
    fix a b assume h: "doc = a @ b \<and> length a < length pre"
    with first have "(a = [] \<or> isLineTerminator (last a)) \<longrightarrow>
        \<not> isHeadingLine L (firstLine b) \<and> \<not> isBareMarker (firstLine b)" by blast
    from no_match_before [OF inl this]
    show "matchPieces True (headingPieces L) (prevOf None a) b = None" .
  qed
  have ex: "regExpExec True (headingPieces L) doc = Some (length pre, len)"
    unfolding regExpExec_def using execFrom_first [OF doc m none, of 0] by simp
  from heading_match_sound [OF m] obtain W1 W2 r where
    s: "ln @ post = [35, 35] @ W1 @ L @ W2 @ r"
    and W1: "\<forall>c\<in>set W1. isSpace c" and W2: "\<forall>c\<in>set W2. isSpace c"
    and re: "atEol True r" and len: "len = 2 + length W1 + length L + length W2"
    unfolding headingForm_def by blast
  define M where "M = [35, 35] @ W1 @ L @ W2"
  have Mr: "ln @ post = M @ r" and lM: "length M = len" using s len by (simp_all add: M_def)
  have le: "length ln \<le> len"
  proof (rule ccontr)
    assume "\<not> length ln \<le> len"
    then have l: "len < length ln" by simp
    have "r = drop len (ln @ post)" using Mr lM by simp
    then have "r = drop len ln @ post" using l by simp
    moreover have "drop len ln \<noteq> []" using l by simp
    ultimately have "r \<noteq> []" "hd r \<in> set ln"
      by (simp_all add: hd_append) (metis hd_in_set in_set_dropD \<open>drop len ln \<noteq> []\<close>)
    with re inline show False by (cases r) (auto simp: atEol_def)
  qed
  define w where "w = take (len - length ln) post"
  have Mw: "M = ln @ w"
  proof -
    have "M = take len (ln @ post)" using Mr lM by simp
    then show ?thesis using le by (simp add: w_def)
  qed
  have pr: "post = w @ r"
  proof -
    have "r = drop len (ln @ post)" using Mr lM by simp
    then have "r = drop (len - length ln) post" using le by simp
    then show ?thesis by (simp add: w_def)
  qed
  have wl: "w = [] \<or> isLineTerminator (hd w)"
  proof (cases w)
    case Nil
    then show ?thesis by simp
  next
    case (Cons c w')
    with pr eol show ?thesis by (simp add: atEol_def)
  qed
  have ws: "\<forall>c\<in>set w. isSpace c"
    using match_overrun_is_space [OF ln w1 w2 inl Mw [unfolded M_def] W1 W2 wl] .
  have rest: "drop (length pre + len) doc = r"
    using doc Mr lM by simp
  have code: "extractSection doc L = Some (trim (untilNextHeading True r))"
    by (simp add: extractSection_def parse_headingSource ex rest search_rest)
  have "trim (untilNextHeading False post) = trim (untilNextHeading True r)"
    unfolding pr untilNextHeading_space [OF ws] trim_leading [OF ws]
    using untilNextHeading_after_eol [OF re] by metis
  with code show ?thesis by simp
qed

section \<open>Headings that span lines\<close>

text \<open>
  Claim C1 at a document the code gets wrong. The first line that consists of the marker,
  whitespace and the label \<open>Notes\<close> is the fourth line (the three lines before it
  are not heading lines), and the text after it, trimmed, is \<open>BBB\<close>. The class
  \<open>\s\<close> of the pattern also matches line breaks, so the pattern matches earlier,
  from the bare marker of the first line over the line break to the second line, and the
  result is the text after that.
\<close>

theorem extractSection_spans_line_break:
  "extractSection (ascii ''##\<newline>Notes\<newline>AAA\<newline>## Notes\<newline>BBB'') (ascii ''Notes'') =
     Some (ascii ''AAA'') \<and>
   ascii ''##\<newline>Notes\<newline>AAA\<newline>## Notes\<newline>BBB'' =
     joinWith [10] [ascii ''##'', ascii ''Notes'', ascii ''AAA''] @ [10] @ ascii ''## Notes'' @
     ascii ''\<newline>BBB'' \<and>
   isHeadingLine (ascii ''Notes'') (ascii ''## Notes'') \<and>
   \<not> isHeadingLine (ascii ''Notes'') (ascii ''##'') \<and>
   \<not> isHeadingLine (ascii ''Notes'') (ascii ''Notes'') \<and>
   \<not> isHeadingLine (ascii ''Notes'') (ascii ''AAA'') \<and>
   trim (untilNextHeading False (ascii ''\<newline>BBB'')) = ascii ''BBB''"
proof -
  have "isHeadingLine (ascii ''Notes'') (ascii ''## Notes'')"
    unfolding isHeadingLine_def
    by (intro exI [of _ "[]"] exI [of _ "[32]", where P = "\<lambda>w1. \<exists>w2. _ w1 w2"])
       (simp add: ascii_def isWhiteSpace_def)
  moreover have "\<not> isHeadingLine (ascii ''Notes'') (ascii ''##'')"
    "\<not> isHeadingLine (ascii ''Notes'') (ascii ''Notes'')"
    "\<not> isHeadingLine (ascii ''Notes'') (ascii ''AAA'')"
    by (simp_all add: isHeadingLine_def ascii_def)
  moreover have "extractSection (ascii ''##\<newline>Notes\<newline>AAA\<newline>## Notes\<newline>BBB'') (ascii ''Notes'') =
     Some (ascii ''AAA'')"
    by (simp add: regex_eval)
  moreover have "trim (untilNextHeading False (ascii ''\<newline>BBB'')) = ascii ''BBB''"
    by (simp add: regex_eval startsNextHeading_def)
  ultimately show ?thesis by (simp add: ascii_def)
qed

text \<open>
  Claim C8 at a document the code gets wrong. No line of the document is a heading line
  for \<open>Notes\<close> (its lines are the bare marker, \<open>Notes\<close> and \<open>hello\<close>),
  and still the result is not empty, for the same reason.
\<close>

theorem extractSection_without_heading_line:
  "extractSection (ascii ''##\<newline>Notes\<newline>hello'') (ascii ''Notes'') = Some (ascii ''hello'') \<and>
   splitOn 10 (ascii ''##\<newline>Notes\<newline>hello'') = [ascii ''##'', ascii ''Notes'', ascii ''hello''] \<and>
   \<not> isHeadingLine (ascii ''Notes'') (ascii ''##'') \<and>
   \<not> isHeadingLine (ascii ''Notes'') (ascii ''Notes'') \<and>
   \<not> isHeadingLine (ascii ''Notes'') (ascii ''hello'')"
proof -
  have "\<not> isHeadingLine (ascii ''Notes'') (ascii ''##'')"
    "\<not> isHeadingLine (ascii ''Notes'') (ascii ''Notes'')"
    "\<not> isHeadingLine (ascii ''Notes'') (ascii ''hello'')"
    by (simp_all add: isHeadingLine_def ascii_def)
  moreover have "extractSection (ascii ''##\<newline>Notes\<newline>hello'') (ascii ''Notes'') =
     Some (ascii ''hello'')"
    by (simp add: regex_eval)
  ultimately show ?thesis by (simp add: ascii_def)
qed

end
